theory Spec2Isabelle
  imports Complex_Main "HOL-Library.AList" "HOL-Library.Char_ord" "HOL-Library.List_Lexorder"
    "HOL-Library.Product_Lexorder"
begin

section \<open>Data model\<close>

text \<open>
  The joins of \<^verbatim>\<open>py_stringsimjoin\<close> work on two tables. A row is reduced here to the two
  cells the core reads: its key and the string in its join attribute (\<^verbatim>\<open>str(row[attr])\<close>);
  pass-through columns are opaque to the core. Tokens are strings, ordered tokens are the
  integer ranks given by the token ordering. Python floats (thresholds, similarity scores)
  are modelled by exact rationals; Python integers by \<^typ>\<open>int\<close>, and the results of
  \<^verbatim>\<open>len\<close> and loop counters that start at 0 and only grow by \<^typ>\<open>nat\<close>.
\<close>

type_synonym key = nat
type_synonym token = string
type_synonym ordered_token = nat
type_synonym token_ordering = "token \<rightharpoonup> ordered_token"

record row =
  row_key :: key
  row_attr :: string

datatype sim_measure = COSINE | DICE | EDIT_DISTANCE | JACCARD | OVERLAP

datatype py_error = KeyError | IndexError | TypeError

text \<open>
  The tokenizer objects come from the library \<^verbatim>\<open>py_stringmatching\<close>. Their contract:
  \<^verbatim>\<open>tokenize\<close> gives the bag of tokens of a string, with duplicates removed when the flag
  \<^verbatim>\<open>return_set\<close> is set; \<^verbatim>\<open>get_return_set\<close> and \<^verbatim>\<open>set_return_set\<close> read and write the flag.
  \<^verbatim>\<open>qval\<close> stands for the remaining configuration of the object.
\<close>

record tokenizer =
  bag_of :: "string \<Rightarrow> token list"
  return_set :: bool
  qval :: nat

definition tokenizer_tokenize :: "tokenizer \<Rightarrow> string \<Rightarrow> token list" where
  "tokenizer_tokenize tok s = (if return_set tok then remdups (bag_of tok s) else bag_of tok s)"

definition get_return_set :: "tokenizer \<Rightarrow> bool" where
  "get_return_set tok = return_set tok"

definition set_return_set :: "bool \<Rightarrow> tokenizer \<Rightarrow> tokenizer" where
  "set_return_set b tok = tok\<lparr>return_set := b\<rparr>"

text \<open>
  The modules \<^verbatim>\<open>filter_utils\<close>, \<^verbatim>\<open>token_ordering\<close>, \<^verbatim>\<open>tokenizers\<close> and \<^verbatim>\<open>simfunctions\<close>
  are imported by the sources but their text is not part of them. Their functions are
  parameters of the model, collected in one record; every field has the argument list of
  the calls in the sources.
\<close>

record helpers =
  tokenize :: "string \<Rightarrow> tokenizer \<Rightarrow> sim_measure \<Rightarrow> token list"
  gen_token_ordering_for_tables ::
    "row list list \<Rightarrow> tokenizer \<Rightarrow> sim_measure \<Rightarrow> token_ordering"
  gen_token_ordering_for_lists :: "token list list \<Rightarrow> token_ordering"
  order_using_token_ordering :: "token list \<Rightarrow> token_ordering \<Rightarrow> ordered_token list"
  get_prefix_length :: "int \<Rightarrow> sim_measure \<Rightarrow> rat \<Rightarrow> tokenizer \<Rightarrow> int"
  get_size_lower_bound :: "int \<Rightarrow> sim_measure \<Rightarrow> rat \<Rightarrow> int"
  get_size_upper_bound :: "int \<Rightarrow> sim_measure \<Rightarrow> rat \<Rightarrow> int"
  get_overlap_threshold :: "int \<Rightarrow> int \<Rightarrow> sim_measure \<Rightarrow> rat \<Rightarrow> tokenizer \<Rightarrow> int"
  get_sim_function :: "sim_measure \<Rightarrow> ordered_token list \<Rightarrow> ordered_token list \<Rightarrow> rat"

text \<open>
  Python's slice \<^verbatim>\<open>xs[0:k]\<close>: the first \<open>k\<close> elements, all of \<open>xs\<close> when \<open>k\<close> exceeds its
  length, and all but the last \<open>-k\<close> elements when \<open>k\<close> is negative.
\<close>

definition py_slice_to :: "'a list \<Rightarrow> int \<Rightarrow> 'a list" where
  "py_slice_to xs k =
     (if 0 \<le> k then take (nat k) xs else take (length xs - nat (- k)) xs)"

section \<open>Position index (index/position\_index.py)\<close>

record position_index =
  pi_table :: "row list"
  pi_tokenizer :: tokenizer
  pi_sim_measure_type :: sim_measure
  pi_threshold :: rat
  pi_token_ordering :: token_ordering
  index :: "ordered_token \<rightharpoonup> (key \<times> nat) list"
  size_map :: "key \<rightharpoonup> nat"

text \<open>\<^verbatim>\<open>PositionIndex.__init__\<close>: both dictionaries start empty.\<close>

definition PositionIndex ::
  "row list \<Rightarrow> tokenizer \<Rightarrow> sim_measure \<Rightarrow> rat \<Rightarrow> token_ordering \<Rightarrow> position_index" where
  "PositionIndex tbl tok m th tord =
     \<lparr>pi_table = tbl, pi_tokenizer = tok, pi_sim_measure_type = m, pi_threshold = th,
      pi_token_ordering = tord, index = Map.empty, size_map = Map.empty\<rparr>"

text \<open>
  The inner loop of \<^verbatim>\<open>build\<close>: every token of the prefix gets the posting
  \<^verbatim>\<open>(row_id, pos)\<close> appended to its list, \<^verbatim>\<open>pos\<close> counting up from its start value.
\<close>

fun index_prefix ::
  "(ordered_token \<rightharpoonup> (key \<times> nat) list) \<Rightarrow> key \<Rightarrow> nat \<Rightarrow> ordered_token list
     \<Rightarrow> (ordered_token \<rightharpoonup> (key \<times> nat) list)" where
  "index_prefix idx row_id pos [] = idx"
| "index_prefix idx row_id pos (t # ts) =
     index_prefix
       (case idx t of
          None \<Rightarrow> idx(t \<mapsto> [(row_id, pos)])
        | Some ps \<Rightarrow> idx(t \<mapsto> ps @ [(row_id, pos)]))
       row_id (pos + 1) ts"

definition index_attr_tokens_of :: "helpers \<Rightarrow> position_index \<Rightarrow> row \<Rightarrow> ordered_token list" where
  "index_attr_tokens_of H self r =
     order_using_token_ordering H (tokenizer_tokenize (pi_tokenizer self) (row_attr r))
       (pi_token_ordering self)"

definition build_row :: "helpers \<Rightarrow> position_index \<Rightarrow> row \<Rightarrow> position_index" where
  "build_row H self r =
     (let index_attr_tokens = index_attr_tokens_of H self r;
          num_tokens = length index_attr_tokens;
          prefix_length = get_prefix_length H (int num_tokens) (pi_sim_measure_type self)
                            (pi_threshold self) (pi_tokenizer self);
          row_id = row_key r
      in self\<lparr>index := index_prefix (index self) row_id 0
                          (py_slice_to index_attr_tokens prefix_length),
              size_map := (size_map self)(row_id \<mapsto> num_tokens)\<rparr>)"

fun build_rows :: "helpers \<Rightarrow> position_index \<Rightarrow> row list \<Rightarrow> position_index" where
  "build_rows H self [] = self"
| "build_rows H self (r # rs) = build_rows H (build_row H self r) rs"

definition build :: "helpers \<Rightarrow> position_index \<Rightarrow> position_index" where
  "build H self = build_rows H self (pi_table self)"

definition probe :: "position_index \<Rightarrow> ordered_token \<Rightarrow> (key \<times> nat) list" where
  "probe self t = (case index self t of None \<Rightarrow> [] | Some ps \<Rightarrow> ps)"

definition get_size :: "position_index \<Rightarrow> key \<Rightarrow> nat option" where
  "get_size self row_id = size_map self row_id"

section \<open>Position filter (filter/position\_filter.py)\<close>

record position_filter =
  pf_tokenizer :: tokenizer
  pf_sim_measure_type :: sim_measure
  pf_threshold :: rat

definition PositionFilter :: "tokenizer \<Rightarrow> sim_measure \<Rightarrow> rat \<Rightarrow> position_filter" where
  "PositionFilter tok m th =
     \<lparr>pf_tokenizer = tok, pf_sim_measure_type = m, pf_threshold = th\<rparr>"

subsection \<open>The table-scope sweep \<^verbatim>\<open>_find_candidates\<close>\<close>

text \<open>
  \<^verbatim>\<open>candidate_overlap\<close> is a dictionary that is iterated by the caller, so it is an
  association list: \<^const>\<open>map_of\<close> reads it (\<^verbatim>\<open>get(cand, 0)\<close> with the default written
  out) and \<^const>\<open>AList.update\<close> writes it, a new key going to the end.
  \<^verbatim>\<open>overlap_threshold_cache\<close> is filled for every size in
  \<^verbatim>\<open>xrange(size_lower_bound, size_upper_bound + 1)\<close>; reading a size that is not in it is
  a \<^verbatim>\<open>KeyError\<close>.
\<close>

definition overlap_threshold_cache ::
  "helpers \<Rightarrow> position_filter \<Rightarrow> int \<Rightarrow> int \<Rightarrow> int \<Rightarrow> (int \<rightharpoonup> int)" where
  "overlap_threshold_cache H self r_num_tokens size_lower_bound size_upper_bound =
     map_of (map (\<lambda>size. (size, get_overlap_threshold H size r_num_tokens
                                  (pf_sim_measure_type self) (pf_threshold self)
                                  (pf_tokenizer self)))
               [size_lower_bound..size_upper_bound])"

text \<open>
  The body of the inner loop, for one posting \<^verbatim>\<open>(cand, cand_pos)\<close> of the token at
  \<^verbatim>\<open>r_pos\<close>. A key without an entry in the size map gives \<^verbatim>\<open>None\<close>, which Python 2 (the
  module uses \<^verbatim>\<open>xrange\<close>) orders below every integer: the chained comparison is false
  and the posting is skipped.
\<close>

definition probe_posting ::
  "position_index \<Rightarrow> int \<Rightarrow> int \<Rightarrow> int \<Rightarrow> (int \<rightharpoonup> int) \<Rightarrow> int \<Rightarrow> (key \<times> int) list
     \<Rightarrow> key \<times> nat \<Rightarrow> py_error + (key \<times> int) list" where
  "probe_posting position_index r_num_tokens size_lower_bound size_upper_bound cache r_pos
       candidate_overlap posting =
     (case posting of (cand, cand_pos) \<Rightarrow>
        (case get_size position_index cand of
           None \<Rightarrow> Inr candidate_overlap
         | Some cand_num_tokens \<Rightarrow>
             if size_lower_bound \<le> int cand_num_tokens \<and> int cand_num_tokens \<le> size_upper_bound
             then
               (let overlap_upper_bound =
                      1 + min (r_num_tokens - r_pos - 1) (int cand_num_tokens - int cand_pos - 1);
                    current_overlap =
                      (case map_of candidate_overlap cand of None \<Rightarrow> 0 | Some v \<Rightarrow> v)
                in (case cache (int cand_num_tokens) of
                      None \<Rightarrow> Inl KeyError
                    | Some overlap_threshold \<Rightarrow>
                        if current_overlap + overlap_upper_bound \<ge> overlap_threshold
                        then Inr (AList.update cand (current_overlap + 1) candidate_overlap)
                        else Inr (AList.update cand 0 candidate_overlap)))
             else Inr candidate_overlap))"

fun probe_postings ::
  "position_index \<Rightarrow> int \<Rightarrow> int \<Rightarrow> int \<Rightarrow> (int \<rightharpoonup> int) \<Rightarrow> int \<Rightarrow> (key \<times> int) list
     \<Rightarrow> (key \<times> nat) list \<Rightarrow> py_error + (key \<times> int) list" where
  "probe_postings position_index n lb ub cache r_pos candidate_overlap [] = Inr candidate_overlap"
| "probe_postings position_index n lb ub cache r_pos candidate_overlap (p # ps) =
     (case probe_posting position_index n lb ub cache r_pos candidate_overlap p of
        Inl e \<Rightarrow> Inl e
      | Inr candidate_overlap' \<Rightarrow>
          probe_postings position_index n lb ub cache r_pos candidate_overlap' ps)"

fun probe_tokens ::
  "position_index \<Rightarrow> int \<Rightarrow> int \<Rightarrow> int \<Rightarrow> (int \<rightharpoonup> int) \<Rightarrow> int \<Rightarrow> (key \<times> int) list
     \<Rightarrow> ordered_token list \<Rightarrow> py_error + (key \<times> int) list" where
  "probe_tokens position_index n lb ub cache r_pos candidate_overlap [] = Inr candidate_overlap"
| "probe_tokens position_index n lb ub cache r_pos candidate_overlap (t # ts) =
     (case probe_postings position_index n lb ub cache r_pos candidate_overlap
             (probe position_index t) of
        Inl e \<Rightarrow> Inl e
      | Inr candidate_overlap' \<Rightarrow>
          probe_tokens position_index n lb ub cache (r_pos + 1) candidate_overlap' ts)"

definition find_candidates ::
  "helpers \<Rightarrow> position_filter \<Rightarrow> ordered_token list \<Rightarrow> int \<Rightarrow> int \<Rightarrow> position_index
     \<Rightarrow> py_error + (key \<times> int) list" where
  "find_candidates H self r_ordered_tokens r_num_tokens r_prefix_length position_index =
     (let size_lower_bound = get_size_lower_bound H r_num_tokens (pf_sim_measure_type self)
                               (pf_threshold self);
          size_upper_bound = get_size_upper_bound H r_num_tokens (pf_sim_measure_type self)
                               (pf_threshold self);
          cache = overlap_threshold_cache H self r_num_tokens size_lower_bound size_upper_bound
      in probe_tokens position_index r_num_tokens size_lower_bound size_upper_bound cache 0 []
           (py_slice_to r_ordered_tokens r_prefix_length))"

subsection \<open>The single-pair filter \<^verbatim>\<open>filter_pair\<close>\<close>

text \<open>
  The first loop stores \<^verbatim>\<open>l_pos\<close> for every token of the left prefix; the loop body has
  no other statement, so \<^verbatim>\<open>l_pos\<close> keeps the value it enters with.
\<close>

fun fill_l_prefix_dict ::
  "(ordered_token \<rightharpoonup> int) \<Rightarrow> int \<Rightarrow> ordered_token list \<Rightarrow> (ordered_token \<rightharpoonup> int)" where
  "fill_l_prefix_dict l_prefix_dict l_pos [] = l_prefix_dict"
| "fill_l_prefix_dict l_prefix_dict l_pos (t # ts) =
     fill_l_prefix_dict (l_prefix_dict(t \<mapsto> l_pos)) l_pos ts"

text \<open>
  The second loop with the two returns after it. The result is the returned flag together
  with the value of \<^verbatim>\<open>current_overlap\<close> at the moment of the return.
\<close>

fun sweep_pair ::
  "(ordered_token \<rightharpoonup> int) \<Rightarrow> int \<Rightarrow> int \<Rightarrow> int \<Rightarrow> int \<Rightarrow> int \<Rightarrow> ordered_token list
     \<Rightarrow> bool \<times> int" where
  "sweep_pair l_prefix_dict l_num_tokens r_num_tokens overlap_threshold current_overlap r_pos [] =
     (if current_overlap > 0 then (False, current_overlap) else (True, current_overlap))"
| "sweep_pair l_prefix_dict l_num_tokens r_num_tokens overlap_threshold current_overlap r_pos
       (t # ts) =
     (case l_prefix_dict t of
        None \<Rightarrow>
          sweep_pair l_prefix_dict l_num_tokens r_num_tokens overlap_threshold current_overlap
            (r_pos + 1) ts
      | Some l_pos \<Rightarrow>
          (let overlap_upper_bound =
                 1 + min (l_num_tokens - l_pos - 1) (r_num_tokens - r_pos - 1)
           in if current_overlap + overlap_upper_bound < overlap_threshold
              then (True, current_overlap)
              else sweep_pair l_prefix_dict l_num_tokens r_num_tokens overlap_threshold
                     (current_overlap + 1) (r_pos + 1) ts))"

definition l_prefix_dict_of :: "helpers \<Rightarrow> position_filter \<Rightarrow> string \<Rightarrow> string
     \<Rightarrow> (ordered_token \<rightharpoonup> int)" where
  "l_prefix_dict_of H self lstring rstring =
     (let ltokens = tokenize H lstring (pf_tokenizer self) (pf_sim_measure_type self);
          rtokens = tokenize H rstring (pf_tokenizer self) (pf_sim_measure_type self);
          token_ordering = gen_token_ordering_for_lists H [ltokens, rtokens];
          ordered_ltokens = order_using_token_ordering H ltokens token_ordering;
          l_num_tokens = int (length ordered_ltokens);
          l_prefix_length = get_prefix_length H l_num_tokens (pf_sim_measure_type self)
                              (pf_threshold self) (pf_tokenizer self)
      in fill_l_prefix_dict Map.empty 0 (py_slice_to ordered_ltokens l_prefix_length))"

definition filter_pair_run :: "helpers \<Rightarrow> position_filter \<Rightarrow> string \<Rightarrow> string \<Rightarrow> bool \<times> int" where
  "filter_pair_run H self lstring rstring =
     (if lstring = [] \<or> rstring = [] then (True, 0)
      else
        (let ltokens = tokenize H lstring (pf_tokenizer self) (pf_sim_measure_type self);
             rtokens = tokenize H rstring (pf_tokenizer self) (pf_sim_measure_type self);
             token_ordering = gen_token_ordering_for_lists H [ltokens, rtokens];
             ordered_ltokens = order_using_token_ordering H ltokens token_ordering;
             ordered_rtokens = order_using_token_ordering H rtokens token_ordering;
             l_num_tokens = int (length ordered_ltokens);
             r_num_tokens = int (length ordered_rtokens);
             r_prefix_length = get_prefix_length H r_num_tokens (pf_sim_measure_type self)
                                 (pf_threshold self) (pf_tokenizer self);
             l_prefix_dict = l_prefix_dict_of H self lstring rstring;
             overlap_threshold = get_overlap_threshold H l_num_tokens r_num_tokens
                                   (pf_sim_measure_type self) (pf_threshold self)
                                   (pf_tokenizer self)
         in sweep_pair l_prefix_dict l_num_tokens r_num_tokens overlap_threshold 0 0
              (py_slice_to ordered_rtokens r_prefix_length)))"

definition filter_pair :: "helpers \<Rightarrow> position_filter \<Rightarrow> string \<Rightarrow> string \<Rightarrow> bool" where
  "filter_pair H self lstring rstring = fst (filter_pair_run H self lstring rstring)"

section \<open>Set similarity join (join/set\_sim\_join.py)\<close>

text \<open>
  An output row is the pair of keys followed by the score when \<^verbatim>\<open>out_sim_score\<close> is set.
  The rows are built on the branch without output attributes; the other branch adds the
  pass-through cells to the same rows.
\<close>

type_synonym 's output_row = "key \<times> key \<times> 's option"

fun cache_l_join_attr ::
  "helpers \<Rightarrow> tokenizer \<Rightarrow> sim_measure \<Rightarrow> token_ordering \<Rightarrow> (key \<rightharpoonup> ordered_token list)
     \<Rightarrow> row list \<Rightarrow> (key \<rightharpoonup> ordered_token list)" where
  "cache_l_join_attr H tok m tord l_join_attr_dict [] = l_join_attr_dict"
| "cache_l_join_attr H tok m tord l_join_attr_dict (r # rs) =
     cache_l_join_attr H tok m tord
       (l_join_attr_dict(row_key r \<mapsto>
          order_using_token_ordering H (tokenize H (row_attr r) tok m) tord))
       rs"

text \<open>
  The loop over \<^verbatim>\<open>iteritems(candidate_overlap)\<close>: a candidate with a positive overlap is
  verified with \<^verbatim>\<open>sim_fn\<close> and emitted when \<^verbatim>\<open>sim_score >= threshold\<close>.
\<close>

fun verify_candidates ::
  "(ordered_token list \<Rightarrow> ordered_token list \<Rightarrow> rat) \<Rightarrow> rat \<Rightarrow> bool
     \<Rightarrow> (key \<rightharpoonup> ordered_token list) \<Rightarrow> key \<Rightarrow> ordered_token list \<Rightarrow> (key \<times> int) list
     \<Rightarrow> py_error + rat output_row list" where
  "verify_candidates sim_fn threshold out_sim_score l_join_attr_dict r_id r_ordered_tokens [] =
     Inr []"
| "verify_candidates sim_fn threshold out_sim_score l_join_attr_dict r_id r_ordered_tokens
       ((cand, overlap) # rest) =
     (if overlap > 0 then
        (case l_join_attr_dict cand of
           None \<Rightarrow> Inl KeyError
         | Some l_ordered_tokens \<Rightarrow>
             (let sim_score = sim_fn l_ordered_tokens r_ordered_tokens
              in if sim_score \<ge> threshold then
                   (case verify_candidates sim_fn threshold out_sim_score l_join_attr_dict r_id
                           r_ordered_tokens rest of
                      Inl e \<Rightarrow> Inl e
                    | Inr output_rows \<Rightarrow>
                        Inr ((cand, r_id, if out_sim_score then Some sim_score else None)
                             # output_rows))
                 else verify_candidates sim_fn threshold out_sim_score l_join_attr_dict r_id
                        r_ordered_tokens rest))
      else verify_candidates sim_fn threshold out_sim_score l_join_attr_dict r_id
             r_ordered_tokens rest)"

definition r_ordered_tokens_of ::
  "helpers \<Rightarrow> tokenizer \<Rightarrow> sim_measure \<Rightarrow> token_ordering \<Rightarrow> row \<Rightarrow> ordered_token list" where
  "r_ordered_tokens_of H tok m tord r_row =
     order_using_token_ordering H (tokenize H (row_attr r_row) tok m) tord"

text \<open>
  The body of the loop over the rows of the right table, for one row.
  \<^verbatim>\<open>set_sim_join\<close> imports \<^verbatim>\<open>_find_candidates\<close> from the module of the position filter
  and calls it with the filter as its fourth argument. The module has that function as
  the method \<^verbatim>\<open>PositionFilter._find_candidates\<close> only; the call is read as the call of
  the method on \<^verbatim>\<open>pos_filter\<close>, which is \<open>find_candidates\<close> with the filter as \<open>self\<close>.
\<close>

definition join_r_row ::
  "helpers \<Rightarrow> tokenizer \<Rightarrow> sim_measure \<Rightarrow> rat \<Rightarrow> bool \<Rightarrow> token_ordering
     \<Rightarrow> (key \<rightharpoonup> ordered_token list) \<Rightarrow> position_index \<Rightarrow> row
     \<Rightarrow> py_error + rat output_row list" where
  "join_r_row H tok m threshold out_sim_score tord l_join_attr_dict position_index r_row =
     (let r_id = row_key r_row;
          r_ordered_tokens = r_ordered_tokens_of H tok m tord r_row;
          r_num_tokens = int (length r_ordered_tokens);
          r_prefix_length = get_prefix_length H r_num_tokens m threshold tok
      in (case find_candidates H (PositionFilter tok m threshold) r_ordered_tokens r_num_tokens
                 r_prefix_length position_index of
            Inl e \<Rightarrow> Inl e
          | Inr candidate_overlap \<Rightarrow>
              verify_candidates (get_sim_function H m) threshold out_sim_score l_join_attr_dict
                r_id r_ordered_tokens candidate_overlap))"

fun join_r_rows ::
  "helpers \<Rightarrow> tokenizer \<Rightarrow> sim_measure \<Rightarrow> rat \<Rightarrow> bool \<Rightarrow> token_ordering
     \<Rightarrow> (key \<rightharpoonup> ordered_token list) \<Rightarrow> position_index \<Rightarrow> row list
     \<Rightarrow> py_error + rat output_row list" where
  "join_r_rows H tok m threshold out_sim_score tord l_join_attr_dict position_index [] = Inr []"
| "join_r_rows H tok m threshold out_sim_score tord l_join_attr_dict position_index (r_row # rest) =
     (case join_r_row H tok m threshold out_sim_score tord l_join_attr_dict position_index r_row of
        Inl e \<Rightarrow> Inl e
      | Inr output_rows \<Rightarrow>
          (case join_r_rows H tok m threshold out_sim_score tord l_join_attr_dict position_index
                  rest of
             Inl e \<Rightarrow> Inl e
           | Inr output_rows' \<Rightarrow> Inr (output_rows @ output_rows')))"

text \<open>
  \<^verbatim>\<open>set_sim_join\<close>, on the rows of the two tables (the values of \<^verbatim>\<open>ltable_dict\<close> and
  \<^verbatim>\<open>rtable_dict\<close>). Its parameters are the ones the function declares: the tables, the
  tokenizer, the measure, the threshold and the output options. It has no parameter for
  a comparison operator or for the policy on empty records.
\<close>

definition set_sim_join ::
  "helpers \<Rightarrow> row list \<Rightarrow> row list \<Rightarrow> tokenizer \<Rightarrow> sim_measure \<Rightarrow> rat \<Rightarrow> bool
     \<Rightarrow> py_error + rat output_row list" where
  "set_sim_join H ltable rtable tok sim_measure_type threshold out_sim_score =
     (let tord = gen_token_ordering_for_tables H [ltable, rtable] tok sim_measure_type;
          l_join_attr_dict = cache_l_join_attr H tok sim_measure_type tord Map.empty ltable;
          position_index = build H (PositionIndex ltable tok sim_measure_type threshold tord)
      in join_r_rows H tok sim_measure_type threshold out_sim_score tord l_join_attr_dict
           position_index rtable)"

section \<open>The drivers (join/dice\_join.py, join/overlap\_join.py, join/edit\_distance\_join.py)\<close>

datatype comp_op = GE | GT | EQ | LE | LT

text \<open>
  Modelled from the spec: the table \<^verbatim>\<open>COMP_OP_MAP\<close> of \<^verbatim>\<open>helper_functions\<close> is not among
  the sources; it maps the operator strings \<^verbatim>\<open>'>='\<close>, \<^verbatim>\<open>'>'\<close>, \<^verbatim>\<open>'='\<close>, \<^verbatim>\<open>'<='\<close>,
  \<^verbatim>\<open>'<'\<close> to the comparisons they name.
\<close>

fun COMP_OP_MAP :: "comp_op \<Rightarrow> 'a::linorder \<Rightarrow> 'a \<Rightarrow> bool" where
  "COMP_OP_MAP GE x y = (x \<ge> y)"
| "COMP_OP_MAP GT x y = (x > y)"
| "COMP_OP_MAP EQ x y = (x = y)"
| "COMP_OP_MAP LE x y = (x \<le> y)"
| "COMP_OP_MAP LT x y = (x < y)"

text \<open>
  The drivers are modelled after their validation steps, for one job and without missing
  values. They work on the caller's tokenizer object: the result is the returned table (or
  the exception that left the call) and the tokenizer as the call leaves it.

  \<^verbatim>\<open>dice_join\<close> calls \<^verbatim>\<open>set_sim_join\<close> with seventeen positional arguments: next to the
  fourteen that function declares it hands it \<^verbatim>\<open>comp_op\<close>, \<^verbatim>\<open>allow_empty\<close> and
  \<^verbatim>\<open>show_progress\<close>. Python counts the arguments of a call before the body of the callee
  runs, and a count the signature does not admit is a \<^verbatim>\<open>TypeError\<close>.
  \<open>call_set_sim_join\<close> is the call with the number of its positional arguments.
\<close>

definition call_set_sim_join ::
  "nat \<Rightarrow> helpers \<Rightarrow> row list \<Rightarrow> row list \<Rightarrow> tokenizer \<Rightarrow> sim_measure \<Rightarrow> rat \<Rightarrow> bool
     \<Rightarrow> py_error + rat output_row list" where
  "call_set_sim_join n_args H ltable rtable tok sim_measure_type threshold out_sim_score =
     (if n_args = 14
      then set_sim_join H ltable rtable tok sim_measure_type threshold out_sim_score
      else Inl TypeError)"

text \<open>
  \<^verbatim>\<open>dice_join\<close> sets the flag of the tokenizer, makes the call, and reverts the flag after
  the call has returned. An exception raised by the call leaves \<^verbatim>\<open>dice_join\<close> at the call:
  the statements after it, the revert among them, do not run.
\<close>

definition dice_join ::
  "helpers \<Rightarrow> row list \<Rightarrow> row list \<Rightarrow> tokenizer \<Rightarrow> rat \<Rightarrow> comp_op \<Rightarrow> bool \<Rightarrow> bool
     \<Rightarrow> (py_error + rat output_row list) \<times> tokenizer" where
  "dice_join H ltable rtable tok threshold comp_op allow_empty out_sim_score =
     (let revert_tokenizer_return_set_flag = \<not> get_return_set tok;
          tok1 = (if \<not> get_return_set tok then set_return_set True tok else tok)
      in (case call_set_sim_join 17 H ltable rtable tok1 DICE threshold out_sim_score of
            Inl e \<Rightarrow> (Inl e, tok1)
          | Inr output_table \<Rightarrow>
              (Inr output_table,
               if revert_tokenizer_return_set_flag then set_return_set False tok1 else tok1)))"


text \<open>
  The edit distance join. \<^verbatim>\<open>PrefixIndex\<close>, \<^verbatim>\<open>PrefixFilter\<close> and the similarity function
  are not among the sources: \<open>prefix_find_candidates\<close> stands for building the prefix
  index on the left rows and asking the prefix filter for the candidates of the ordered
  tokens of a right row (in the order the loop visits them), \<open>edit_distance_fn\<close> for
  \<^verbatim>\<open>get_sim_function('EDIT_DISTANCE')\<close>. A candidate is a position in \<^verbatim>\<open>ltable_list\<close>;
  reading the list beyond its end is an \<^verbatim>\<open>IndexError\<close>.
\<close>

record ed_helpers =
  prefix_find_candidates ::
    "row list \<Rightarrow> tokenizer \<Rightarrow> int \<Rightarrow> token_ordering \<Rightarrow> ordered_token list \<Rightarrow> nat list"
  edit_distance_fn :: "string \<Rightarrow> string \<Rightarrow> int"

fun verify_ed_candidates ::
  "(string \<Rightarrow> string \<Rightarrow> int) \<Rightarrow> int \<Rightarrow> comp_op \<Rightarrow> bool \<Rightarrow> row list \<Rightarrow> nat list \<Rightarrow> row
     \<Rightarrow> nat list \<Rightarrow> py_error + int output_row list" where
  "verify_ed_candidates sim_fn threshold comp_op out_sim_score ltable_list l_join_attr_list r_row
       [] = Inr []"
| "verify_ed_candidates sim_fn threshold comp_op out_sim_score ltable_list l_join_attr_list r_row
       (cand # rest) =
     (if cand < length l_join_attr_list then
        (let r_string = row_attr r_row; r_len = int (length r_string)
         in if r_len - threshold \<le> int (l_join_attr_list ! cand)
                \<and> int (l_join_attr_list ! cand) \<le> r_len + threshold
            then
              (let l_row = ltable_list ! cand;
                   edit_dist = sim_fn (row_attr l_row) r_string
               in if COMP_OP_MAP comp_op edit_dist threshold then
                    (case verify_ed_candidates sim_fn threshold comp_op out_sim_score ltable_list
                            l_join_attr_list r_row rest of
                       Inl e \<Rightarrow> Inl e
                     | Inr output_rows \<Rightarrow>
                         Inr ((row_key l_row, row_key r_row,
                               if out_sim_score then Some edit_dist else None) # output_rows))
                  else verify_ed_candidates sim_fn threshold comp_op out_sim_score ltable_list
                         l_join_attr_list r_row rest)
            else verify_ed_candidates sim_fn threshold comp_op out_sim_score ltable_list
                   l_join_attr_list r_row rest)
      else Inl IndexError)"

fun ed_join_r_rows ::
  "helpers \<Rightarrow> ed_helpers \<Rightarrow> tokenizer \<Rightarrow> int \<Rightarrow> comp_op \<Rightarrow> bool \<Rightarrow> token_ordering \<Rightarrow> row list
     \<Rightarrow> nat list \<Rightarrow> row list \<Rightarrow> py_error + int output_row list" where
  "ed_join_r_rows H E tok threshold comp_op out_sim_score tord ltable_list l_join_attr_list [] =
     Inr []"
| "ed_join_r_rows H E tok threshold comp_op out_sim_score tord ltable_list l_join_attr_list
       (r_row # rest) =
     (let r_ordered_tokens =
            order_using_token_ordering H (tokenizer_tokenize tok (row_attr r_row)) tord;
          candidates = prefix_find_candidates E ltable_list tok threshold tord r_ordered_tokens
      in (case verify_ed_candidates (edit_distance_fn E) threshold comp_op out_sim_score
                 ltable_list l_join_attr_list r_row candidates of
            Inl e \<Rightarrow> Inl e
          | Inr output_rows \<Rightarrow>
              (case ed_join_r_rows H E tok threshold comp_op out_sim_score tord ltable_list
                      l_join_attr_list rest of
                 Inl e \<Rightarrow> Inl e
               | Inr output_rows' \<Rightarrow> Inr (output_rows @ output_rows'))))"

definition edit_distance_join_split ::
  "helpers \<Rightarrow> ed_helpers \<Rightarrow> row list \<Rightarrow> row list \<Rightarrow> tokenizer \<Rightarrow> int \<Rightarrow> comp_op \<Rightarrow> bool
     \<Rightarrow> py_error + int output_row list" where
  "edit_distance_join_split H E ltable_list rtable_list tok threshold comp_op out_sim_score =
     (let tord = gen_token_ordering_for_tables H [ltable_list, rtable_list] tok EDIT_DISTANCE;
          l_join_attr_list = map (\<lambda>r. length (row_attr r)) ltable_list
      in ed_join_r_rows H E tok threshold comp_op out_sim_score tord ltable_list l_join_attr_list
           rtable_list)"


section \<open>The helper modules, from their description\<close>

text \<open>
  Modelled from the spec: a tokenizer that splits a string at blanks, standing for the
  delimiter tokenizer of \<^verbatim>\<open>py_stringmatching\<close> that the scenarios use.
\<close>

fun split_blank :: "string \<Rightarrow> string \<Rightarrow> token list" where
  "split_blank cur [] = (if cur = [] then [] else [cur])"
| "split_blank cur (c # cs) =
     (if c = CHR '' '' then (if cur = [] then split_blank [] cs else cur # split_blank [] cs)
      else split_blank (cur @ [c]) cs)"

definition ws_tokenizer :: "bool \<Rightarrow> tokenizer" where
  "ws_tokenizer b = \<lparr>bag_of = split_blank [], return_set = b, qval = 0\<rparr>"

text \<open>
  Modelled from the spec: \<^verbatim>\<open>token_ordering.py\<close> is not among the sources. The ordering
  counts for every token the records that contain it, sorts the tokens by ascending
  frequency, ties by the token itself, and gives each token its position as rank.
  \<^verbatim>\<open>order_using_token_ordering\<close> maps the tokens to their ranks, drops the tokens without a
  rank and sorts ascending.
\<close>

definition doc_freq :: "token list list \<Rightarrow> token \<Rightarrow> nat" where
  "doc_freq records t = length (filter (\<lambda>ts. t \<in> set ts) records)"

definition spec_token_ordering :: "token list list \<Rightarrow> token_ordering" where
  "spec_token_ordering records =
     (let ranked = sort_key (\<lambda>t. (doc_freq records t, t)) (remdups (concat records))
      in map_of (zip ranked [0..<length ranked]))"

definition spec_order_using :: "token list \<Rightarrow> token_ordering \<Rightarrow> ordered_token list" where
  "spec_order_using tokens tord = sort (List.map_filter tord tokens)"

text \<open>
  Modelled from the spec: \<^verbatim>\<open>filter_utils.py\<close> and \<^verbatim>\<open>simfunctions.py\<close> are not among the
  sources. The formulas are those given for Jaccard and Dice, the prefix length clamped
  to \<open>[0, n]\<close>; the similarity of two empty token sets is 1. The other measures are not
  used below and are left open.
\<close>

definition clamp_prefix :: "int \<Rightarrow> int \<Rightarrow> int" where
  "clamp_prefix n k = max 0 (min n k)"

fun spec_prefix_length :: "int \<Rightarrow> sim_measure \<Rightarrow> rat \<Rightarrow> tokenizer \<Rightarrow> int" where
  "spec_prefix_length n JACCARD th tok = clamp_prefix n (n - \<lceil>th * of_int n\<rceil> + 1)"
| "spec_prefix_length n DICE th tok = clamp_prefix n (n - \<lceil>th * of_int n / (2 - th)\<rceil> + 1)"
| "spec_prefix_length n m th tok = undefined"

fun spec_size_lower_bound :: "int \<Rightarrow> sim_measure \<Rightarrow> rat \<Rightarrow> int" where
  "spec_size_lower_bound n JACCARD th = \<lceil>th * of_int n\<rceil>"
| "spec_size_lower_bound n DICE th = \<lceil>th * of_int n / (2 - th)\<rceil>"
| "spec_size_lower_bound n m th = undefined"

fun spec_size_upper_bound :: "int \<Rightarrow> sim_measure \<Rightarrow> rat \<Rightarrow> int" where
  "spec_size_upper_bound n JACCARD th = \<lfloor>of_int n / th\<rfloor>"
| "spec_size_upper_bound n DICE th = \<lfloor>of_int n * (2 - th) / th\<rfloor>"
| "spec_size_upper_bound n m th = undefined"

fun spec_overlap_threshold :: "int \<Rightarrow> int \<Rightarrow> sim_measure \<Rightarrow> rat \<Rightarrow> tokenizer \<Rightarrow> int" where
  "spec_overlap_threshold x y JACCARD th tok = \<lceil>th * of_int (x + y) / (1 + th)\<rceil>"
| "spec_overlap_threshold x y DICE th tok = \<lceil>th * of_int (x + y) / 2\<rceil>"
| "spec_overlap_threshold x y m th tok = undefined"

definition overlap_count :: "ordered_token list \<Rightarrow> ordered_token list \<Rightarrow> nat" where
  "overlap_count x y = length (filter (\<lambda>t. t \<in> set y) (remdups x))"

fun spec_sim_function :: "sim_measure \<Rightarrow> ordered_token list \<Rightarrow> ordered_token list \<Rightarrow> rat" where
  "spec_sim_function JACCARD x y =
     (if x = [] \<and> y = [] then 1
      else of_nat (overlap_count x y) / of_nat (length (remdups (x @ y))))"
| "spec_sim_function DICE x y =
     (if x = [] \<and> y = [] then 1
      else 2 * of_nat (overlap_count x y) / of_nat (length (remdups x) + length (remdups y)))"
| "spec_sim_function m x y = undefined"

definition spec_helpers :: helpers where
  "spec_helpers =
     \<lparr>tokenize = (\<lambda>s tok m. tokenizer_tokenize tok s),
      gen_token_ordering_for_tables =
        (\<lambda>tables tok m.
           spec_token_ordering (map (\<lambda>r. tokenizer_tokenize tok (row_attr r)) (concat tables))),
      gen_token_ordering_for_lists = spec_token_ordering,
      order_using_token_ordering = spec_order_using,
      get_prefix_length = spec_prefix_length,
      get_size_lower_bound = spec_size_lower_bound,
      get_size_upper_bound = spec_size_upper_bound,
      get_overlap_threshold = spec_overlap_threshold,
      get_sim_function = spec_sim_function\<rparr>"

section \<open>Notions used in the statements\<close>

text \<open>
  The postings stored under a token (the empty list when the token has no entry), the
  postings a row contributes to a token, and the prefix of a row that \<^verbatim>\<open>build\<close> indexes.
\<close>

definition postings_of ::
  "(ordered_token \<rightharpoonup> (key \<times> nat) list) \<Rightarrow> ordered_token \<Rightarrow> (key \<times> nat) list" where
  "postings_of idx t = (case idx t of None \<Rightarrow> [] | Some ps \<Rightarrow> ps)"

definition row_postings ::
  "key \<Rightarrow> nat \<Rightarrow> ordered_token list \<Rightarrow> ordered_token \<Rightarrow> (key \<times> nat) list" where
  "row_postings k pos ts t = map (\<lambda>p. (k, fst p)) (filter (\<lambda>p. snd p = t) (enumerate pos ts))"

definition prefix_tokens_of :: "helpers \<Rightarrow> position_index \<Rightarrow> row \<Rightarrow> ordered_token list" where
  "prefix_tokens_of H self r =
     py_slice_to (index_attr_tokens_of H self r)
       (get_prefix_length H (int (length (index_attr_tokens_of H self r)))
          (pi_sim_measure_type self) (pi_threshold self) (pi_tokenizer self))"

section \<open>Concrete tables\<close>

text \<open>The tables of the Dice scenario: one row on each side, Dice similarity 1/2.\<close>

definition L_dice :: "row list" where
  "L_dice = [\<lparr>row_key = 1, row_attr = ''a b c d''\<rparr>]"

definition R_dice :: "row list" where
  "R_dice = [\<lparr>row_key = 1, row_attr = ''a b e f''\<rparr>]"

text \<open>The tables of the scenario with an empty join attribute on both sides.\<close>

definition L_empty :: "row list" where
  "L_empty = [\<lparr>row_key = 1, row_attr = []\<rparr>]"

definition R_empty :: "row list" where
  "R_empty = [\<lparr>row_key = 1, row_attr = []\<rparr>]"


text \<open>The token ordering and the position index of the Dice scenario, threshold 1/2.\<close>

definition tord_dice :: token_ordering where
  "tord_dice = gen_token_ordering_for_tables spec_helpers [L_dice, R_dice] (ws_tokenizer True) DICE"

definition PI_dice :: position_index where
  "PI_dice = build spec_helpers (PositionIndex L_dice (ws_tokenizer True) DICE (1/2) tord_dice)"

definition PF_dice :: position_filter where
  "PF_dice = PositionFilter (ws_tokenizer True) DICE (1/2)"

text \<open>
  Modelled from the spec: the edit distance of \<^verbatim>\<open>simfunctions.py\<close> is the standard
  Levenshtein distance on the two strings.
\<close>

fun levenshtein :: "string \<Rightarrow> string \<Rightarrow> nat" where
  "levenshtein [] ys = length ys"
| "levenshtein (x # xs) [] = Suc (length xs)"
| "levenshtein (x # xs) (y # ys) =
     min (min (levenshtein xs (y # ys) + 1) (levenshtein (x # xs) ys + 1))
         (levenshtein xs ys + (if x = y then 0 else 1))"

text \<open>
  Modelled from the spec: a q-gram tokenizer, and the prefix filter on a prefix index
  (\<^verbatim>\<open>prefix_index.py\<close> and \<^verbatim>\<open>prefix_filter.py\<close> are not among the sources). The prefix
  length for the edit distance is \<open>q * threshold + 1\<close>, clamped to \<open>[0, n]\<close>; a left row
  is a candidate when its prefix shares a token with the prefix of the probe.
\<close>

definition qgrams :: "nat \<Rightarrow> string \<Rightarrow> token list" where
  "qgrams q s = map (\<lambda>i. take q (drop i s)) [0..<length s + 1 - q]"

definition qgram_tokenizer :: "nat \<Rightarrow> bool \<Rightarrow> tokenizer" where
  "qgram_tokenizer q b = \<lparr>bag_of = qgrams q, return_set = b, qval = q\<rparr>"

definition ed_prefix :: "tokenizer \<Rightarrow> int \<Rightarrow> ordered_token list \<Rightarrow> ordered_token list" where
  "ed_prefix tok th ts =
     py_slice_to ts (clamp_prefix (int (length ts)) (int (qval tok) * th + 1))"

definition spec_prefix_candidates ::
  "row list \<Rightarrow> tokenizer \<Rightarrow> int \<Rightarrow> token_ordering \<Rightarrow> ordered_token list \<Rightarrow> nat list" where
  "spec_prefix_candidates ltable_list tok th tord r_ordered_tokens =
     filter
       (\<lambda>cand. filter
                 (\<lambda>t. t \<in> set (ed_prefix tok th
                                  (spec_order_using
                                     (tokenizer_tokenize tok (row_attr (ltable_list ! cand))) tord)))
                 (ed_prefix tok th r_ordered_tokens) \<noteq> [])
       [0..<length ltable_list]"

definition spec_ed_helpers :: ed_helpers where
  "spec_ed_helpers =
     \<lparr>prefix_find_candidates = spec_prefix_candidates,
      edit_distance_fn = (\<lambda>x y. int (levenshtein x y))\<rparr>"

text \<open>The tables of the edit distance scenario.\<close>

definition L_kitten :: "row list" where
  "L_kitten = [\<lparr>row_key = 1, row_attr = ''kitten''\<rparr>]"

definition R_kitten :: "row list" where
  "R_kitten = [\<lparr>row_key = 1, row_attr = ''kitten''\<rparr>, \<lparr>row_key = 2, row_attr = ''sitten''\<rparr>,
               \<lparr>row_key = 3, row_attr = ''sitting''\<rparr>]"


text \<open>
  For the edit distance join: the output row of a candidate, the test a candidate has to
  pass (the length window, then the comparison of the edit distance with the threshold),
  and the candidates the prefix filter gives for a right row.
\<close>

definition ed_row ::
  "ed_helpers \<Rightarrow> bool \<Rightarrow> row list \<Rightarrow> row \<Rightarrow> nat \<Rightarrow> int output_row" where
  "ed_row E out_sim_score ltable_list r_row cand =
     (row_key (ltable_list ! cand), row_key r_row,
      if out_sim_score
      then Some (edit_distance_fn E (row_attr (ltable_list ! cand)) (row_attr r_row)) else None)"

definition ed_passes :: "ed_helpers \<Rightarrow> int \<Rightarrow> comp_op \<Rightarrow> row list \<Rightarrow> row \<Rightarrow> nat \<Rightarrow> bool" where
  "ed_passes E threshold comp_op ltable_list r_row cand =
     (int (length (row_attr r_row)) - threshold \<le> int (length (row_attr (ltable_list ! cand)))
      \<and> int (length (row_attr (ltable_list ! cand))) \<le> int (length (row_attr r_row)) + threshold
      \<and> COMP_OP_MAP comp_op
           (edit_distance_fn E (row_attr (ltable_list ! cand)) (row_attr r_row)) threshold)"

definition ed_candidates ::
  "helpers \<Rightarrow> ed_helpers \<Rightarrow> row list \<Rightarrow> row list \<Rightarrow> tokenizer \<Rightarrow> int \<Rightarrow> row \<Rightarrow> nat list" where
  "ed_candidates H E ltable_list rtable_list tok threshold r_row =
     prefix_find_candidates E ltable_list tok threshold
       (gen_token_ordering_for_tables H [ltable_list, rtable_list] tok EDIT_DISTANCE)
       (order_using_token_ordering H (tokenizer_tokenize tok (row_attr r_row))
          (gen_token_ordering_for_tables H [ltable_list, rtable_list] tok EDIT_DISTANCE))"

text \<open>
  The sweep of \<^verbatim>\<open>_find_candidates\<close> without the error case of the cache, which never
  arises: the step for one posting, the loop over the postings of a token and the loop
  over the tokens. \<open>thr\<close> gives the overlap threshold for a candidate size.
\<close>

definition cur_overlap :: "(key \<times> int) list \<Rightarrow> key \<Rightarrow> int" where
  "cur_overlap M c = (case map_of M c of None \<Rightarrow> 0 | Some v \<Rightarrow> v)"

definition overlap_bound :: "int \<Rightarrow> int \<Rightarrow> nat \<Rightarrow> nat \<Rightarrow> int" where
  "overlap_bound n r_pos n_c j = 1 + min (n - r_pos - 1) (int n_c - int j - 1)"

definition posting_step ::
  "position_index \<Rightarrow> (int \<Rightarrow> int) \<Rightarrow> int \<Rightarrow> int \<Rightarrow> int \<Rightarrow> int \<Rightarrow> (key \<times> int) list \<Rightarrow> key \<times> nat
     \<Rightarrow> (key \<times> int) list" where
  "posting_step PI thr n lb ub r_pos M p =
     (case get_size PI (fst p) of
        None \<Rightarrow> M
      | Some n_c \<Rightarrow>
          if lb \<le> int n_c \<and> int n_c \<le> ub then
            (if cur_overlap M (fst p) + overlap_bound n r_pos n_c (snd p) \<ge> thr (int n_c)
             then AList.update (fst p) (cur_overlap M (fst p) + 1) M
             else AList.update (fst p) 0 M)
          else M)"

fun tokens_sweep ::
  "position_index \<Rightarrow> (int \<Rightarrow> int) \<Rightarrow> int \<Rightarrow> int \<Rightarrow> int \<Rightarrow> int \<Rightarrow> (key \<times> int) list
     \<Rightarrow> ordered_token list \<Rightarrow> (key \<times> int) list" where
  "tokens_sweep PI thr n lb ub r_pos M [] = M"
| "tokens_sweep PI thr n lb ub r_pos M (t # ts) =
     tokens_sweep PI thr n lb ub (r_pos + 1)
       (foldl (posting_step PI thr n lb ub r_pos) M (probe PI t)) ts"

text \<open>
  The sweep as one candidate sees it. The candidate has the prefix \<open>pl\<close> in the index and
  the size \<open>n_c\<close>; \<open>T\<close> is its overlap threshold. Its count changes at the positions of its
  prefix that hold the probe token, in ascending order.
\<close>

definition positions :: "ordered_token list \<Rightarrow> ordered_token \<Rightarrow> nat list" where
  "positions ts t = map fst (filter (\<lambda>p. snd p = t) (enumerate 0 ts))"

definition val_step :: "int \<Rightarrow> int \<Rightarrow> nat \<Rightarrow> int \<Rightarrow> int \<Rightarrow> nat \<Rightarrow> int" where
  "val_step T n n_c r_pos v j = (if v + overlap_bound n r_pos n_c j \<ge> T then v + 1 else 0)"

fun cand_sweep ::
  "ordered_token list \<Rightarrow> int \<Rightarrow> int \<Rightarrow> nat \<Rightarrow> int \<Rightarrow> int \<Rightarrow> ordered_token list \<Rightarrow> int" where
  "cand_sweep pl T n n_c r_pos v [] = v"
| "cand_sweep pl T n n_c r_pos v (t # ts) =
     cand_sweep pl T n n_c (r_pos + 1) (foldl (val_step T n n_c r_pos) v (positions pl t)) ts"

text \<open>
  Tables on which the sweep rejects a candidate: Jaccard with threshold 4/5, the first
  left row and the right row share four of their five tokens.
\<close>

definition L_prune :: "row list" where
  "L_prune = [\<lparr>row_key = 1, row_attr = ''a p q s t''\<rparr>, \<lparr>row_key = 2, row_attr = ''t''\<rparr>]"

definition R_prune :: "row list" where
  "R_prune = [\<lparr>row_key = 7, row_attr = ''x a p q s''\<rparr>]"

definition tord_prune :: token_ordering where
  "tord_prune =
     gen_token_ordering_for_tables spec_helpers [L_prune, R_prune] (ws_tokenizer True) JACCARD"

definition PI_prune :: position_index where
  "PI_prune =
     build spec_helpers (PositionIndex L_prune (ws_tokenizer True) JACCARD (4/5) tord_prune)"

definition PF_prune :: position_filter where
  "PF_prune = PositionFilter (ws_tokenizer True) JACCARD (4/5)"

text \<open>
  The rows that the verification loop of \<^verbatim>\<open>set_sim_join\<close> emits for one right row, as a
  function of the candidate map: for every candidate with a positive overlap whose
  similarity to the probe reaches the threshold, the two keys and the score.
\<close>

definition dict_tokens :: "(key \<rightharpoonup> ordered_token list) \<Rightarrow> key \<Rightarrow> ordered_token list" where
  "dict_tokens d c = (case d c of None \<Rightarrow> [] | Some ts \<Rightarrow> ts)"

definition verified_rows ::
  "(ordered_token list \<Rightarrow> ordered_token list \<Rightarrow> rat) \<Rightarrow> rat \<Rightarrow> bool
     \<Rightarrow> (key \<rightharpoonup> ordered_token list) \<Rightarrow> key \<Rightarrow> ordered_token list \<Rightarrow> (key \<times> int) list
     \<Rightarrow> rat output_row list" where
  "verified_rows sim_fn threshold out_sim_score d r_id r_ordered_tokens candidate_overlap =
     map (\<lambda>p. (fst p, r_id,
                if out_sim_score then Some (sim_fn (dict_tokens d (fst p)) r_ordered_tokens)
                else None))
       (filter (\<lambda>p. snd p > 0 \<and> sim_fn (dict_tokens d (fst p)) r_ordered_tokens \<ge> threshold)
          candidate_overlap)"

text \<open>
  The candidate map that \<^verbatim>\<open>set_sim_join\<close> gets for a right row: the sweep over the prefix
  of the row's ordered tokens on the index built over the left table.
\<close>

definition candidates_of ::
  "helpers \<Rightarrow> row list \<Rightarrow> tokenizer \<Rightarrow> sim_measure \<Rightarrow> rat \<Rightarrow> token_ordering \<Rightarrow> row
     \<Rightarrow> (key \<times> int) list" where
  "candidates_of H ltable tok m th tord r_row =
     tokens_sweep (build H (PositionIndex ltable tok m th tord))
       (\<lambda>s. get_overlap_threshold H s (int (length (r_ordered_tokens_of H tok m tord r_row))) m th tok)
       (int (length (r_ordered_tokens_of H tok m tord r_row)))
       (get_size_lower_bound H (int (length (r_ordered_tokens_of H tok m tord r_row))) m th)
       (get_size_upper_bound H (int (length (r_ordered_tokens_of H tok m tord r_row))) m th)
       0 []
       (py_slice_to (r_ordered_tokens_of H tok m tord r_row)
          (get_prefix_length H (int (length (r_ordered_tokens_of H tok m tord r_row))) m th tok))"




section \<open>Properties of the drivers\<close>







section \<open>Properties of the position index\<close>

lemma probe_postings_of: "probe self t = postings_of (index self) t"
  by (simp add: probe_def postings_of_def)

lemma index_prefix_postings:
  "postings_of (index_prefix idx k pos ts) t = postings_of idx t @ row_postings k pos ts t"
proof (induction ts arbitrary: idx pos)
  case Nil
  show ?case by (simp add: row_postings_def)
next
  case (Cons a ts)
  show ?case
    by (simp add: Cons.IH) (simp add: postings_of_def row_postings_def split: option.splits)
qed

lemma build_row_fields [simp]:
  "pi_tokenizer (build_row H self r) = pi_tokenizer self"
  "pi_token_ordering (build_row H self r) = pi_token_ordering self"
  "pi_sim_measure_type (build_row H self r) = pi_sim_measure_type self"
  "pi_threshold (build_row H self r) = pi_threshold self"
  by (simp_all add: build_row_def Let_def)

lemma build_row_tokens [simp]:
  "index_attr_tokens_of H (build_row H self r) = index_attr_tokens_of H self"
  "prefix_tokens_of H (build_row H self r) = prefix_tokens_of H self"
  by (simp_all add: index_attr_tokens_of_def prefix_tokens_of_def fun_eq_iff)

lemma build_row_index:
  "postings_of (index (build_row H self r)) t
     = postings_of (index self) t @ row_postings (row_key r) 0 (prefix_tokens_of H self r) t"
  by (simp add: build_row_def Let_def index_prefix_postings prefix_tokens_of_def)

lemma build_row_size_map:
  "size_map (build_row H self r)
     = (size_map self)(row_key r \<mapsto> length (index_attr_tokens_of H self r))"
  by (simp add: build_row_def Let_def)

lemma build_rows_postings:
  "postings_of (index (build_rows H self rows)) t
     = postings_of (index self) t
       @ concat (map (\<lambda>r. row_postings (row_key r) 0 (prefix_tokens_of H self r) t) rows)"
  by (induction rows arbitrary: self) (simp_all add: build_row_index)

lemma build_rows_size_other:
  "k \<notin> row_key ` set rows \<Longrightarrow> size_map (build_rows H self rows) k = size_map self k"
  by (induction rows arbitrary: self) (simp_all add: build_row_size_map)

lemma build_rows_size:
  "distinct (map row_key rows) \<Longrightarrow> r \<in> set rows \<Longrightarrow>
     size_map (build_rows H self rows) (row_key r) = Some (length (index_attr_tokens_of H self r))"
proof (induction rows arbitrary: self)
  case Nil
  then show ?case by simp
next
  case (Cons a rows)
  show ?case
  proof (cases "r = a")
    case True
    with Cons.prems have "row_key r \<notin> row_key ` set rows" by auto
    then show ?thesis using True
      by (simp add: build_rows_size_other build_row_size_map)
  next
    case False
    with Cons.prems have "r \<in> set rows" "distinct (map row_key rows)" by auto
    then show ?thesis using Cons.IH [of "build_row H self a"] by simp
  qed
qed

lemma PositionIndex_fields [simp]:
  "pi_table (PositionIndex tbl tok m th tord) = tbl"
  "pi_tokenizer (PositionIndex tbl tok m th tord) = tok"
  "pi_sim_measure_type (PositionIndex tbl tok m th tord) = m"
  "pi_threshold (PositionIndex tbl tok m th tord) = th"
  "pi_token_ordering (PositionIndex tbl tok m th tord) = tord"
  "index (PositionIndex tbl tok m th tord) = Map.empty"
  "size_map (PositionIndex tbl tok m th tord) = Map.empty"
  by (simp_all add: PositionIndex_def)

lemma row_postings_member:
  "p < length ts \<Longrightarrow> (k, p) \<in> set (row_postings k 0 ts (ts ! p))"
proof -
  assume "p < length ts"
  then have "(p, ts ! p) \<in> set (filter (\<lambda>q. snd q = ts ! p) (enumerate 0 ts))"
    by (simp add: in_set_enumerate_eq)
  then have "(\<lambda>q. (k, fst q)) (p, ts ! p) \<in> set (row_postings k 0 ts (ts ! p))"
    unfolding row_postings_def set_map by (rule imageI)
  then show ?thesis by simp
qed

lemma py_slice_to_nth:
  "p < length xs \<Longrightarrow> int p < k \<Longrightarrow> p < length (py_slice_to xs k) \<and> py_slice_to xs k ! p = xs ! p"
  by (auto simp: py_slice_to_def)

text \<open>
  C9. After \<^verbatim>\<open>build\<close> on a fresh index over the left table, every token at a position
  \<open>p\<close> below the prefix length of a row's ordered token list has the posting of the row's
  key and \<open>p\<close> in the list that \<^verbatim>\<open>probe\<close> returns for it, and, the keys of the table being
  unique, \<^verbatim>\<open>get_size\<close> returns the length of the whole ordered token list.
\<close>

theorem position_index_build:
  "r \<in> set tbl \<longrightarrow>
     (\<forall>p. p < length (order_using_token_ordering H (tokenizer_tokenize tok (row_attr r)) tord)
           \<and> int p < get_prefix_length H
                 (int (length (order_using_token_ordering H (tokenizer_tokenize tok (row_attr r)) tord)))
                 m th tok
        \<longrightarrow> (row_key r, p)
              \<in> set (probe (build H (PositionIndex tbl tok m th tord))
                      (order_using_token_ordering H (tokenizer_tokenize tok (row_attr r)) tord ! p)))
     \<and> (distinct (map row_key tbl)
        \<longrightarrow> get_size (build H (PositionIndex tbl tok m th tord)) (row_key r)
              = Some (length (order_using_token_ordering H (tokenizer_tokenize tok (row_attr r)) tord)))"
proof (intro impI conjI allI)
  fix p
  let ?self = "PositionIndex tbl tok m th tord"
  let ?toks = "order_using_token_ordering H (tokenizer_tokenize tok (row_attr r)) tord"
  assume r: "r \<in> set tbl"
    and p: "p < length ?toks \<and> int p < get_prefix_length H (int (length ?toks)) m th tok"
  have toks: "index_attr_tokens_of H ?self r = ?toks"
    by (simp add: index_attr_tokens_of_def)
  have pre: "p < length (prefix_tokens_of H ?self r) \<and> prefix_tokens_of H ?self r ! p = ?toks ! p"
    using p py_slice_to_nth [of p ?toks] by (simp add: prefix_tokens_of_def toks)
  then have "(row_key r, p) \<in> set (row_postings (row_key r) 0 (prefix_tokens_of H ?self r) (?toks ! p))"
    using row_postings_member [of p "prefix_tokens_of H ?self r" "row_key r"] by simp
  with r show "(row_key r, p) \<in> set (probe (build H ?self) (?toks ! p))"
    by (auto simp: probe_postings_of build_def build_rows_postings)
next
  let ?self = "PositionIndex tbl tok m th tord"
  assume "r \<in> set tbl" "distinct (map row_key tbl)"
  then show "get_size (build H ?self) (row_key r)
      = Some (length (order_using_token_ordering H (tokenizer_tokenize tok (row_attr r)) tord))"
    using build_rows_size [of tbl r H ?self]
    by (simp add: get_size_def build_def index_attr_tokens_of_def)
qed

theorem position_index_build_witness:
  "\<lparr>row_key = 1, row_attr = ''a b c d''\<rparr> \<in> set L_dice
   \<and> distinct (map row_key L_dice)
   \<and> order_using_token_ordering spec_helpers (tokenizer_tokenize (ws_tokenizer True) ''a b c d'')
        tord_dice = [0, 1, 4, 5]
   \<and> int 2 < get_prefix_length spec_helpers 4 DICE (1/2) (ws_tokenizer True)
   \<and> (1, 2) \<in> set (probe PI_dice 4)
   \<and> get_size PI_dice 1 = Some 4"
proof -
  let ?r = "\<lparr>row_key = 1, row_attr = ''a b c d''\<rparr>"
  have r: "?r \<in> set L_dice" by (simp add: L_dice_def)
  have d: "distinct (map row_key L_dice)" by (simp add: L_dice_def)
  have toks: "order_using_token_ordering spec_helpers
      (tokenizer_tokenize (ws_tokenizer True) (row_attr ?r)) tord_dice = [0, 1, 4, 5]"
    by code_simp
  have pl: "int 2 < get_prefix_length spec_helpers 4 DICE (1/2) (ws_tokenizer True)"
    by code_simp
  note c = position_index_build [of ?r L_dice spec_helpers "ws_tokenizer True" tord_dice DICE "1/2",
      THEN mp, OF r]
  have "(1, 2) \<in> set (probe PI_dice ([0, 1, 4, 5] ! 2))"
    using c [THEN conjunct1, rule_format, of 2] toks pl by (simp add: PI_dice_def)
  moreover have "get_size PI_dice 1 = Some 4"
    using c [THEN conjunct2, THEN mp, OF d] toks by (simp add: PI_dice_def)
  ultimately have "(1, 2) \<in> set (probe PI_dice 4) \<and> get_size PI_dice 1 = Some 4"
    by simp
  with r d toks pl show ?thesis by simp
qed


section \<open>Properties of the sweep\<close>

lemma overlap_threshold_cache_lookup:
  "lb \<le> s \<Longrightarrow> s \<le> ub \<Longrightarrow>
     overlap_threshold_cache H self n lb ub s
       = Some (get_overlap_threshold H s n (pf_sim_measure_type self) (pf_threshold self)
                 (pf_tokenizer self))"
  by (simp add: overlap_threshold_cache_def map_of_map_restrict)

lemma probe_postings_append:
  "probe_postings PI n lb ub cache r_pos M (ps1 @ ps2)
     = (case probe_postings PI n lb ub cache r_pos M ps1 of
          Inl e \<Rightarrow> Inl e
        | Inr M1 \<Rightarrow> probe_postings PI n lb ub cache r_pos M1 ps2)"
  by (induction ps1 arbitrary: M) (simp_all split: sum.splits)

lemma probe_tokens_append:
  "probe_tokens PI n lb ub cache r_pos M (ts1 @ ts2)
     = (case probe_tokens PI n lb ub cache r_pos M ts1 of
          Inl e \<Rightarrow> Inl e
        | Inr M1 \<Rightarrow> probe_tokens PI n lb ub cache (r_pos + int (length ts1)) M1 ts2)"
  by (induction ts1 arbitrary: M r_pos) (simp_all add: add.assoc add.commute split: sum.splits)

text \<open>
  C4. One step of the sweep. Let the probe prefix be \<open>ts1 @ t # ts2\<close>, so that \<open>t\<close> is its
  token number \<open>i = length ts1\<close>, and let \<open>(cand, j)\<close> be a posting of \<open>t\<close>, reached
  with the candidate map \<open>M\<close>. The sweep goes on from \<open>M\<close> itself when the size \<open>n_c\<close> of
  the candidate is outside the size bounds; otherwise the bound is
  \<open>1 + min (n_r - i - 1) (n_c - j - 1)\<close> and the entry of the candidate becomes its
  current count plus one when count plus bound reaches the overlap threshold of
  \<open>(n_c, n_r)\<close>, the value the cache holds, and 0 when it does not.
\<close>

theorem position_filter_step:
  fixes H :: helpers and self :: position_filter and r_num_tokens :: int
  defines "lb \<equiv> get_size_lower_bound H r_num_tokens (pf_sim_measure_type self) (pf_threshold self)"
      and "ub \<equiv> get_size_upper_bound H r_num_tokens (pf_sim_measure_type self) (pf_threshold self)"
  defines "cache \<equiv> overlap_threshold_cache H self r_num_tokens lb ub"
  assumes prefix: "py_slice_to r_ordered_tokens r_prefix_length = ts1 @ t # ts2"
      and postings: "probe position_index t = ps1 @ (cand, j) # ps2"
      and before_token: "probe_tokens position_index r_num_tokens lb ub cache 0 [] ts1 = Inr M0"
      and before_posting:
        "probe_postings position_index r_num_tokens lb ub cache (int (length ts1)) M0 ps1 = Inr M"
      and size: "get_size position_index cand = Some n_c"
  shows "find_candidates H self r_ordered_tokens r_num_tokens r_prefix_length position_index
     = (case probe_postings position_index r_num_tokens lb ub cache (int (length ts1))
               (if int n_c < lb \<or> ub < int n_c then M
                else if (case map_of M cand of None \<Rightarrow> 0 | Some v \<Rightarrow> v)
                          + (1 + min (r_num_tokens - int (length ts1) - 1) (int n_c - int j - 1))
                        \<ge> get_overlap_threshold H (int n_c) r_num_tokens (pf_sim_measure_type self)
                             (pf_threshold self) (pf_tokenizer self)
                     then AList.update cand ((case map_of M cand of None \<Rightarrow> 0 | Some v \<Rightarrow> v) + 1) M
                     else AList.update cand 0 M)
               ps2 of
          Inl e \<Rightarrow> Inl e
        | Inr M' \<Rightarrow>
            probe_tokens position_index r_num_tokens lb ub cache (int (length ts1) + 1) M' ts2)"
proof -
  let ?i = "int (length ts1)"
  let ?M' = "if int n_c < lb \<or> ub < int n_c then M
                else if (case map_of M cand of None \<Rightarrow> 0 | Some v \<Rightarrow> v)
                          + (1 + min (r_num_tokens - int (length ts1) - 1) (int n_c - int j - 1))
                        \<ge> get_overlap_threshold H (int n_c) r_num_tokens (pf_sim_measure_type self)
                             (pf_threshold self) (pf_tokenizer self)
                     then AList.update cand ((case map_of M cand of None \<Rightarrow> 0 | Some v \<Rightarrow> v) + 1) M
                     else AList.update cand 0 M"
  have step: "probe_posting position_index r_num_tokens lb ub cache ?i M (cand, j) = Inr ?M'"
    using size
    by (auto simp: probe_posting_def Let_def cache_def overlap_threshold_cache_lookup)
  have "find_candidates H self r_ordered_tokens r_num_tokens r_prefix_length position_index
      = probe_tokens position_index r_num_tokens lb ub cache 0 [] (ts1 @ t # ts2)"
    by (simp add: find_candidates_def Let_def lb_def ub_def cache_def prefix)
  also have "\<dots> = probe_tokens position_index r_num_tokens lb ub cache ?i M0 (t # ts2)"
    by (simp add: probe_tokens_append before_token)
  also have "\<dots> = (case probe_postings position_index r_num_tokens lb ub cache ?i ?M' ps2 of
          Inl e \<Rightarrow> Inl e
        | Inr M' \<Rightarrow> probe_tokens position_index r_num_tokens lb ub cache (?i + 1) M' ts2)"
    by (simp add: postings probe_postings_append before_posting step)
  finally show ?thesis .
qed

theorem position_filter_step_witness:
  "py_slice_to [2, 3, 4, 5 :: nat] 3 = [2, 3] @ 4 # []
   \<and> probe PI_dice 4 = [] @ (1, 2) # []
   \<and> probe_tokens PI_dice 4 2 12 (overlap_threshold_cache spec_helpers PF_dice 4 2 12) 0 [] [2, 3] = Inr []
   \<and> get_size PI_dice 1 = Some 4
   \<and> find_candidates spec_helpers PF_dice [2, 3, 4, 5] 4 3 PI_dice = Inr [(1, 1)]"
proof -
  have lb: "get_size_lower_bound spec_helpers 4 (pf_sim_measure_type PF_dice) (pf_threshold PF_dice) = 2"
    by code_simp
  have ub: "get_size_upper_bound spec_helpers 4 (pf_sim_measure_type PF_dice) (pf_threshold PF_dice) = 12"
    by code_simp
  have thr: "get_overlap_threshold spec_helpers 4 4 (pf_sim_measure_type PF_dice)
      (pf_threshold PF_dice) (pf_tokenizer PF_dice) = 2"
    by code_simp
  have h1: "py_slice_to [2, 3, 4, 5 :: nat] 3 = [2, 3] @ 4 # []" by code_simp
  have h2: "probe PI_dice 4 = [] @ (1, 2) # []" by code_simp
  have p2: "probe PI_dice 2 = []" by code_simp
  have p3: "probe PI_dice 3 = []" by code_simp
  have h3: "probe_tokens PI_dice 4 2 12 (overlap_threshold_cache spec_helpers PF_dice 4 2 12) 0 []
      [2, 3] = Inr []"
    by (simp add: p2 p3)
  have h4: "probe_postings PI_dice 4 2 12 (overlap_threshold_cache spec_helpers PF_dice 4 2 12)
      (int (length [2 :: nat, 3])) [] [] = Inr []"
    by simp
  have h5: "get_size PI_dice 1 = Some 4" by code_simp
  from position_filter_step [of "[2, 3, 4, 5]" 3 "[2, 3]" 4 "[]" PI_dice "[]" 1 2 "[]"
      4 spec_helpers PF_dice "[]" "[]" 4, unfolded lb ub, OF h1 h2 h3 h4 h5]
  have fc: "find_candidates spec_helpers PF_dice [2, 3, 4, 5] 4 3 PI_dice = Inr [(1, 1)]"
    by (simp add: thr)
  from h1 h2 h3 h5 fc show ?thesis by blast
qed

section \<open>Properties of the edit distance join\<close>

lemma verify_ed_candidates_rows:
  "list_all (\<lambda>cand. cand < length ltable_list) cands \<Longrightarrow>
   verify_ed_candidates (edit_distance_fn E) threshold comp_op out_sim_score ltable_list
       (map (\<lambda>r. length (row_attr r)) ltable_list) r_row cands
     = Inr (map (ed_row E out_sim_score ltable_list r_row)
              (filter (ed_passes E threshold comp_op ltable_list r_row) cands))"
  by (induction cands) (simp_all add: ed_row_def ed_passes_def Let_def)

lemma ed_join_r_rows_rows:
  "list_all (\<lambda>r_row. list_all (\<lambda>cand. cand < length ltable_list)
       (prefix_find_candidates E ltable_list tok threshold tord
          (order_using_token_ordering H (tokenizer_tokenize tok (row_attr r_row)) tord))) rows \<Longrightarrow>
   ed_join_r_rows H E tok threshold comp_op out_sim_score tord ltable_list
       (map (\<lambda>r. length (row_attr r)) ltable_list) rows
     = Inr (concat (map (\<lambda>r_row. map (ed_row E out_sim_score ltable_list r_row)
              (filter (ed_passes E threshold comp_op ltable_list r_row)
                 (prefix_find_candidates E ltable_list tok threshold tord
                    (order_using_token_ordering H (tokenizer_tokenize tok (row_attr r_row)) tord))))
            rows))"
  by (induction rows) (simp_all add: Let_def verify_ed_candidates_rows)

text \<open>
  C7. When the candidates of the prefix filter are positions of the left table, the edit
  distance join returns, for every right row in turn, exactly the candidates whose raw
  join string is within \<open>threshold\<close> of the length of the right string and whose edit
  distance to it, computed on the two original strings, compares to the threshold under
  the configured operator; the score of the row is that edit distance.
\<close>

theorem edit_distance_window_verify:
  "list_all (\<lambda>r_row. list_all (\<lambda>cand. cand < length ltable_list)
       (ed_candidates H E ltable_list rtable_list tok threshold r_row)) rtable_list \<Longrightarrow>
   edit_distance_join_split H E ltable_list rtable_list tok threshold comp_op out_sim_score
     = Inr (concat (map (\<lambda>r_row.
              map (\<lambda>cand. (row_key (ltable_list ! cand), row_key r_row,
                     if out_sim_score
                     then Some (edit_distance_fn E (row_attr (ltable_list ! cand)) (row_attr r_row))
                     else None))
                (filter (\<lambda>cand.
                     int (length (row_attr r_row)) - threshold
                       \<le> int (length (row_attr (ltable_list ! cand)))
                     \<and> int (length (row_attr (ltable_list ! cand)))
                       \<le> int (length (row_attr r_row)) + threshold
                     \<and> COMP_OP_MAP comp_op
                         (edit_distance_fn E (row_attr (ltable_list ! cand)) (row_attr r_row))
                         threshold)
                   (ed_candidates H E ltable_list rtable_list tok threshold r_row)))
            rtable_list))"
  using ed_join_r_rows_rows [of ltable_list E tok threshold
      "gen_token_ordering_for_tables H [ltable_list, rtable_list] tok EDIT_DISTANCE" H rtable_list
      comp_op out_sim_score]
  by (simp add: edit_distance_join_split_def Let_def ed_candidates_def ed_row_def [abs_def]
        ed_passes_def [abs_def])

theorem edit_distance_window_verify_witness:
  "list_all (\<lambda>r_row. list_all (\<lambda>cand. cand < length L_kitten)
       (ed_candidates spec_helpers spec_ed_helpers L_kitten R_kitten (qgram_tokenizer 2 False) 1
          r_row)) R_kitten
   \<and> edit_distance_join_split spec_helpers spec_ed_helpers L_kitten R_kitten
        (qgram_tokenizer 2 False) 1 LE True
     = Inr [(1, 1, Some 0), (1, 2, Some 1)]"
proof -
  have h: "list_all (\<lambda>r_row. list_all (\<lambda>cand. cand < length L_kitten)
       (ed_candidates spec_helpers spec_ed_helpers L_kitten R_kitten (qgram_tokenizer 2 False) 1
          r_row)) R_kitten"
    by code_simp
  have e: "concat (map (\<lambda>r_row.
              map (\<lambda>cand. (row_key (L_kitten ! cand), row_key r_row,
                     if True
                     then Some (edit_distance_fn spec_ed_helpers (row_attr (L_kitten ! cand)) (row_attr r_row))
                     else None))
                (filter (\<lambda>cand.
                     int (length (row_attr r_row)) - 1
                       \<le> int (length (row_attr (L_kitten ! cand)))
                     \<and> int (length (row_attr (L_kitten ! cand)))
                       \<le> int (length (row_attr r_row)) + 1
                     \<and> COMP_OP_MAP LE
                         (edit_distance_fn spec_ed_helpers (row_attr (L_kitten ! cand)) (row_attr r_row))
                         1)
                   (ed_candidates spec_helpers spec_ed_helpers L_kitten R_kitten (qgram_tokenizer 2 False) 1 r_row)))
            R_kitten) = [(1, 1, Some 0), (1, 2, Some 1)]"
    by code_simp
  from edit_distance_window_verify [OF h, of LE True] e h show ?thesis by simp
qed

section \<open>The scenarios on which the code departs from its description\<close>

text \<open>
  C5 at the scenario with two empty join attributes and \<^verbatim>\<open>allow_empty\<close> set: both sides
  have no token, and no row is emitted. \<^verbatim>\<open>dice_join\<close> raises \<^verbatim>\<open>TypeError\<close> at its call of
  \<^verbatim>\<open>set_sim_join\<close>, to which it hands \<^verbatim>\<open>allow_empty\<close>; \<^verbatim>\<open>set_sim_join\<close>, called with the
  arguments it declares, returns an empty table for Dice and for Jaccard on 3-grams: an
  empty probe has no prefix token to look up, and a left row without tokens has no
  posting.
\<close>

theorem dice_join_both_empty:
  "tokenizer_tokenize (ws_tokenizer True) (row_attr (hd L_empty)) = []
   \<and> tokenizer_tokenize (ws_tokenizer True) (row_attr (hd R_empty)) = []
   \<and> fst (dice_join spec_helpers L_empty R_empty (ws_tokenizer True) (1/2) GE True True)
       = Inl TypeError
   \<and> set_sim_join spec_helpers L_empty R_empty (ws_tokenizer True) DICE (1/2) True = Inr []
   \<and> tokenizer_tokenize (qgram_tokenizer 3 True) (row_attr (hd L_empty)) = []
   \<and> set_sim_join spec_helpers L_empty R_empty (qgram_tokenizer 3 True) JACCARD (1/2) True
       = Inr []"
  by code_simp

text \<open>
  C8 at the strings of the Dice scenario: the ordered left tokens are \<open>[0, 1, 4, 5]\<close>, the
  prefix has three of them, and the dictionary of \<^verbatim>\<open>filter_pair\<close> gives position 0 to each,
  also to the tokens at positions 1 and 2.
\<close>

theorem filter_pair_l_prefix_dict:
  "order_using_token_ordering spec_helpers
       (tokenize spec_helpers ''a b c d'' (ws_tokenizer True) DICE)
       (gen_token_ordering_for_lists spec_helpers
          [tokenize spec_helpers ''a b c d'' (ws_tokenizer True) DICE,
           tokenize spec_helpers ''a b e f'' (ws_tokenizer True) DICE])
     = [0, 1, 4, 5]
   \<and> get_prefix_length spec_helpers 4 DICE (1/2) (ws_tokenizer True) = 3
   \<and> l_prefix_dict_of spec_helpers PF_dice ''a b c d'' ''a b e f'' 0 = Some 0
   \<and> l_prefix_dict_of spec_helpers PF_dice ''a b c d'' ''a b e f'' 1 = Some 0
   \<and> l_prefix_dict_of spec_helpers PF_dice ''a b c d'' ''a b e f'' 4 = Some 0
   \<and> filter_pair spec_helpers PF_dice ''a b c d'' ''a b e f'' = False"
  by code_simp

section \<open>The sweep as one candidate sees it\<close>

subsection \<open>The sweep never fails\<close>

lemma probe_posting_pure:
  "probe_posting PI n lb ub (overlap_threshold_cache H self n lb ub) r_pos M p
     = Inr (posting_step PI
              (\<lambda>s. get_overlap_threshold H s n (pf_sim_measure_type self) (pf_threshold self)
                      (pf_tokenizer self))
              n lb ub r_pos M p)"
  by (cases p)
     (simp add: probe_posting_def posting_step_def cur_overlap_def overlap_bound_def Let_def
        overlap_threshold_cache_lookup split: option.splits)

lemma probe_postings_pure:
  "probe_postings PI n lb ub (overlap_threshold_cache H self n lb ub) r_pos M ps
     = Inr (foldl (posting_step PI
              (\<lambda>s. get_overlap_threshold H s n (pf_sim_measure_type self) (pf_threshold self)
                      (pf_tokenizer self))
              n lb ub r_pos) M ps)"
  by (induction ps arbitrary: M) (simp_all add: probe_posting_pure)

lemma probe_tokens_pure:
  "probe_tokens PI n lb ub (overlap_threshold_cache H self n lb ub) r_pos M ts
     = Inr (tokens_sweep PI
              (\<lambda>s. get_overlap_threshold H s n (pf_sim_measure_type self) (pf_threshold self)
                      (pf_tokenizer self))
              n lb ub r_pos M ts)"
  by (induction ts arbitrary: M r_pos) (simp_all add: probe_postings_pure)

lemma tokens_sweep_append:
  "tokens_sweep PI thr n lb ub r_pos M (ts1 @ ts2)
     = tokens_sweep PI thr n lb ub (r_pos + int (length ts1))
         (tokens_sweep PI thr n lb ub r_pos M ts1) ts2"
  by (induction ts1 arbitrary: M r_pos) (simp_all add: add.assoc add.commute)

subsection \<open>What a step does to one candidate\<close>

lemma cur_overlap_update:
  "cur_overlap (AList.update k v M) c = (if k = c then v else cur_overlap M c)"
  by (simp add: cur_overlap_def update_conv')

lemma posting_step_cur:
  assumes "get_size PI c = Some n_c" "lb \<le> int n_c" "int n_c \<le> ub"
  shows "cur_overlap (posting_step PI thr n lb ub r_pos M p) c
     = (if fst p = c then val_step (thr (int n_c)) n n_c r_pos (cur_overlap M c) (snd p)
        else cur_overlap M c)"
  using assms
  by (auto simp: posting_step_def val_step_def cur_overlap_update split: option.splits)

lemma postings_sweep_cur:
  assumes "get_size PI c = Some n_c" "lb \<le> int n_c" "int n_c \<le> ub"
  shows "cur_overlap (foldl (posting_step PI thr n lb ub r_pos) M ps) c
     = foldl (val_step (thr (int n_c)) n n_c r_pos) (cur_overlap M c)
         (map snd (filter (\<lambda>p. fst p = c) ps))"
  by (induction ps arbitrary: M) (simp_all add: posting_step_cur [OF assms])

lemma tokens_sweep_cur:
  assumes "get_size PI c = Some n_c" "lb \<le> int n_c" "int n_c \<le> ub"
      and "\<And>t. map snd (filter (\<lambda>p. fst p = c) (probe PI t)) = positions pl t"
  shows "cur_overlap (tokens_sweep PI thr n lb ub r_pos M ts) c
     = cand_sweep pl (thr (int n_c)) n n_c r_pos (cur_overlap M c) ts"
  by (induction ts arbitrary: M r_pos)
     (simp_all add: postings_sweep_cur [OF assms(1-3)] assms(4))

lemma posting_step_dom:
  "c \<in> fst ` set M \<Longrightarrow> c \<in> fst ` set (posting_step PI thr n lb ub r_pos M p)"
  by (auto simp: posting_step_def dom_update split: option.splits)

lemma postings_sweep_dom:
  "c \<in> fst ` set M \<Longrightarrow> c \<in> fst ` set (foldl (posting_step PI thr n lb ub r_pos) M ps)"
proof (induction ps arbitrary: M)
  case Nil
  then show ?case by simp
next
  case (Cons p ps)
  from Cons.IH [OF posting_step_dom [OF Cons.prems]] show ?case by simp
qed

lemma tokens_sweep_dom:
  "c \<in> fst ` set M \<Longrightarrow> c \<in> fst ` set (tokens_sweep PI thr n lb ub r_pos M ts)"
proof (induction ts arbitrary: M r_pos)
  case Nil
  then show ?case by simp
next
  case (Cons t ts)
  from Cons.IH [OF postings_sweep_dom [OF Cons.prems]] show ?case by simp
qed

lemma posting_step_distinct:
  "distinct (map fst M) \<Longrightarrow> distinct (map fst (posting_step PI thr n lb ub r_pos M p))"
  by (auto simp: posting_step_def distinct_update split: option.splits)

lemma postings_sweep_distinct:
  "distinct (map fst M) \<Longrightarrow> distinct (map fst (foldl (posting_step PI thr n lb ub r_pos) M ps))"
  by (induction ps arbitrary: M) (simp_all add: posting_step_distinct)

lemma tokens_sweep_distinct:
  "distinct (map fst M) \<Longrightarrow> distinct (map fst (tokens_sweep PI thr n lb ub r_pos M ts))"
  by (induction ts arbitrary: M r_pos) (simp_all add: postings_sweep_distinct)

subsection \<open>The postings of one key in a built index\<close>

lemma filter_row_postings:
  "filter (\<lambda>p. fst p = c) (row_postings k pos ts t) = (if k = c then row_postings k pos ts t else [])"
  by (auto simp: row_postings_def filter_map comp_def)

lemma filter_postings_other:
  "c \<notin> row_key ` set rows \<Longrightarrow>
     filter (\<lambda>p. fst p = c) (concat (map (\<lambda>r. row_postings (row_key r) 0 (f r) t) rows)) = []"
  by (induction rows) (auto simp: filter_row_postings)

lemma filter_postings_row:
  "distinct (map row_key rows) \<Longrightarrow> r \<in> set rows \<Longrightarrow>
     filter (\<lambda>p. fst p = row_key r)
       (concat (map (\<lambda>r. row_postings (row_key r) 0 (f r) t) rows))
     = row_postings (row_key r) 0 (f r) t"
proof (induction rows)
  case Nil
  then show ?case by simp
next
  case (Cons a rows)
  show ?case
  proof (cases "r = a")
    case True
    with Cons.prems have "row_key r \<notin> row_key ` set rows" by auto
    then show ?thesis using True by (simp add: filter_postings_other filter_row_postings)
  next
    case False
    with Cons.prems have "r \<in> set rows" "distinct (map row_key rows)" "row_key a \<noteq> row_key r"
      by auto
    then show ?thesis using Cons.IH by (simp add: filter_row_postings)
  qed
qed

lemma map_snd_row_postings: "map snd (row_postings k 0 ts t) = positions ts t"
  by (simp add: row_postings_def positions_def comp_def)

lemma build_probe:
  "probe (build H (PositionIndex tbl tok m th tord)) t
     = concat (map (\<lambda>r. row_postings (row_key r) 0
                           (prefix_tokens_of H (PositionIndex tbl tok m th tord) r) t) tbl)"
proof -
  have "postings_of (index (PositionIndex tbl tok m th tord)) t = []"
    by (simp add: postings_of_def)
  then show ?thesis
    by (simp add: probe_postings_of build_def build_rows_postings)
qed

lemma build_probe_key:
  assumes "distinct (map row_key tbl)" "r \<in> set tbl"
  shows "map snd (filter (\<lambda>p. fst p = row_key r) (probe (build H (PositionIndex tbl tok m th tord)) t))
     = positions (prefix_tokens_of H (PositionIndex tbl tok m th tord) r) t"
  by (simp add: build_probe filter_postings_row [OF assms] map_snd_row_postings)

lemma build_probe_row:
  assumes "(c, j) \<in> set (probe (build H (PositionIndex tbl tok m th tord)) t)"
  shows "\<exists>r \<in> set tbl. row_key r = c"
  using assms by (auto simp: build_probe row_postings_def)

subsection \<open>The count of one candidate\<close>

lemma overlap_bound_mono:
  "r_pos \<le> r_pos' \<Longrightarrow> j \<le> j' \<Longrightarrow> overlap_bound n r_pos' n_c j' \<le> overlap_bound n r_pos n_c j"
  by (simp add: overlap_bound_def min_def)

lemma overlap_bound_Suc: "overlap_bound n r_pos n_c j - 1 \<le> overlap_bound n r_pos n_c (Suc j)"
  by (simp add: overlap_bound_def min_def)

lemma val_step_nonneg: "0 \<le> v \<Longrightarrow> 0 \<le> val_step T n n_c r_pos v j"
  by (simp add: val_step_def)

lemma foldl_val_step_nonneg: "0 \<le> v \<Longrightarrow> 0 \<le> foldl (val_step T n n_c r_pos) v js"
  by (induction js arbitrary: v) (simp_all add: val_step_nonneg)

lemma cand_sweep_nonneg: "0 \<le> v \<Longrightarrow> 0 \<le> cand_sweep pl T n n_c r_pos v ts"
  by (induction ts arbitrary: v r_pos) (simp_all add: foldl_val_step_nonneg)

lemma cand_sweep_append:
  "cand_sweep pl T n n_c r_pos v (ts1 @ ts2)
     = cand_sweep pl T n n_c (r_pos + int (length ts1)) (cand_sweep pl T n n_c r_pos v ts1) ts2"
  by (induction ts1 arbitrary: v r_pos) (simp_all add: add.assoc add.commute)

lemma positions_set: "j \<in> set (positions ts t) \<longleftrightarrow> j < length ts \<and> ts ! j = t"
proof
  assume "j \<in> set (positions ts t)"
  then obtain p where "p \<in> set (enumerate 0 ts)" "snd p = t" "fst p = j"
    by (auto simp: positions_def)
  then show "j < length ts \<and> ts ! j = t" by (auto simp: in_set_enumerate_eq)
next
  assume "j < length ts \<and> ts ! j = t"
  then have "(j, t) \<in> set (filter (\<lambda>p. snd p = t) (enumerate 0 ts))"
    by (simp add: in_set_enumerate_eq)
  then have "fst (j, t) \<in> set (positions ts t)"
    unfolding positions_def set_map by (rule imageI)
  then show "j \<in> set (positions ts t)" by simp
qed

lemma positions_snoc:
  "positions (ts @ [x]) t = positions ts t @ (if x = t then [length ts] else [])"
  by (simp add: positions_def enumerate_append_eq)

lemma positions_upt:
  "sorted ts \<Longrightarrow> \<exists>j0 j1. positions ts t = [j0..<j1]"
proof (induction ts rule: rev_induct)
  case Nil
  have "positions [] t = [0..<0]" by (simp add: positions_def)
  then show ?case by blast
next
  case (snoc x ts)
  then have srt: "sorted ts" and le: "\<forall>y \<in> set ts. y \<le> x"
    by (auto simp: sorted_append)
  from snoc.IH [OF srt] obtain j0 j1 where IH: "positions ts t = [j0..<j1]" by blast
  show ?case
  proof (cases "x = t")
    case False
    then show ?thesis using IH by (auto simp: positions_snoc)
  next
    case True
    show ?thesis
    proof (cases "j0 < j1")
      case False
      then have "positions (ts @ [x]) t = [length ts..<Suc (length ts)]"
        using IH True by (simp add: positions_snoc)
      then show ?thesis by blast
    next
      case lt: True
      have j1: "j1 \<le> length ts"
      proof -
        from lt have "j1 - 1 \<in> set (positions ts t)" unfolding IH by simp
        then have "j1 - 1 < length ts" by (simp add: positions_set)
        with lt show ?thesis by arith
      qed
      have "j1 = length ts"
      proof (rule ccontr)
        assume "j1 \<noteq> length ts"
        with j1 have j1lt: "j1 < length ts" by simp
        from lt have "j1 - 1 \<in> set (positions ts t)" unfolding IH by simp
        then have a: "ts ! (j1 - 1) = t" by (simp add: positions_set)
        have "ts ! (j1 - 1) \<le> ts ! j1"
          using sorted_nth_mono [OF srt, of "j1 - 1" j1] j1lt by simp
        moreover have "ts ! j1 \<le> x" using le j1lt by simp
        ultimately have "ts ! j1 = t" using a True by simp
        then have "j1 \<in> set (positions ts t)" using j1lt by (simp add: positions_set)
        then show False unfolding IH by simp
      qed
      then have "positions (ts @ [x]) t = [j0..<Suc (length ts)]"
        using IH True lt by (simp add: positions_snoc)
      then show ?thesis by blast
    qed
  qed
qed

lemma foldl_val_step_pass:
  "k \<le> j \<Longrightarrow> T \<le> v + overlap_bound n i n_c k \<Longrightarrow>
     T \<le> foldl (val_step T n n_c i) v [k..<j] + overlap_bound n i n_c j"
proof (induction j)
  case 0
  then show ?case by simp
next
  case (Suc j)
  show ?case
  proof (cases "k = Suc j")
    case True
    with Suc.prems show ?thesis by simp
  next
    case False
    with Suc.prems have kj: "k \<le> j" by simp
    let ?w = "foldl (val_step T n n_c i) v [k..<j]"
    from Suc.IH [OF kj Suc.prems(2)] have w: "T \<le> ?w + overlap_bound n i n_c j" .
    then have "val_step T n n_c i ?w j = ?w + 1" by (simp add: val_step_def)
    moreover have "overlap_bound n i n_c j - 1 \<le> overlap_bound n i n_c (Suc j)"
      by (rule overlap_bound_Suc)
    ultimately show ?thesis using w kj by simp
  qed
qed

lemma foldl_val_step_dead:
  "\<forall>j \<in> set js. overlap_bound n i n_c j < T \<Longrightarrow> foldl (val_step T n n_c i) 0 js = 0"
  by (induction js) (simp_all add: val_step_def)

lemma cand_sweep_dead_tail:
  "overlap_bound n r_pos n_c j0 < T \<Longrightarrow>
   \<forall>t \<in> set ts. \<forall>j \<in> set (positions pl t). j0 \<le> j \<Longrightarrow>
   cand_sweep pl T n n_c r_pos 0 ts = 0"
proof (induction ts arbitrary: r_pos)
  case Nil
  then show ?case by simp
next
  case (Cons t ts)
  have "\<forall>j \<in> set (positions pl t). overlap_bound n r_pos n_c j < T"
  proof
    fix j assume "j \<in> set (positions pl t)"
    with Cons.prems(2) have "j0 \<le> j" by simp
    then have "overlap_bound n r_pos n_c j \<le> overlap_bound n r_pos n_c j0"
      by (simp add: overlap_bound_mono)
    with Cons.prems(1) show "overlap_bound n r_pos n_c j < T" by simp
  qed
  then have z: "foldl (val_step T n n_c r_pos) 0 (positions pl t) = 0"
    by (rule foldl_val_step_dead)
  have "overlap_bound n (r_pos + 1) n_c j0 \<le> overlap_bound n r_pos n_c j0"
    by (simp add: overlap_bound_mono)
  with Cons.prems(1) have b: "overlap_bound n (r_pos + 1) n_c j0 < T" by simp
  from Cons.IH [OF b] Cons.prems(2) show ?case by (simp add: z)
qed

lemma upt_split:
  assumes "[j0..<j1] = js1 @ j # js2"
  shows "js1 = [j0..<j] \<and> j0 \<le> j \<and> j < j1"
proof -
  have len: "length js1 < j1 - j0"
    using arg_cong [OF assms, of length] by simp
  have "[j0..<j1] ! length js1 = j" unfolding assms by simp
  with len have j: "j = j0 + length js1" by simp
  have "take (length js1) [j0..<j1] = js1" unfolding assms by simp
  moreover have "take (length js1) [j0..<j1] = [j0..<j0 + length js1]"
    using len by simp
  ultimately show ?thesis using j len by simp
qed

lemma cand_sweep_dead:
  assumes pl: "sorted pl" and ts: "sorted (t # ts2)"
      and pos: "positions pl t = js1 @ j # js2"
      and v0: "0 \<le> v0"
      and fails: "foldl (val_step T n n_c i) v0 js1 + overlap_bound n i n_c j < T"
  shows "cand_sweep pl T n n_c (i + 1) (foldl (val_step T n n_c i) v0 (positions pl t)) ts2 = 0"
proof -
  from positions_upt [OF pl, of t] obtain j0 j1 where upt: "positions pl t = [j0..<j1]"
    by blast
  from upt_split [of j0 j1 js1 j js2] upt pos
  have js1: "js1 = [j0..<j]" and j0j: "j0 \<le> j" and jj1: "j < j1" by simp_all
  have b0: "overlap_bound n i n_c j0 < T"
  proof (rule ccontr)
    assume "\<not> overlap_bound n i n_c j0 < T"
    with v0 have "T \<le> v0 + overlap_bound n i n_c j0" by simp
    from foldl_val_step_pass [OF j0j this] fails show False by (simp add: js1)
  qed
  have first: "\<forall>j' \<in> set (positions pl t). j0 \<le> j'" unfolding upt by simp
  have j0pos: "j0 < length pl \<and> pl ! j0 = t"
  proof -
    from j0j jj1 have "j0 \<in> set (positions pl t)" unfolding upt by simp
    then show ?thesis by (simp add: positions_set)
  qed
  have later: "\<forall>t' \<in> set ts2. \<forall>j' \<in> set (positions pl t'). j0 \<le> j'"
  proof (intro ballI)
    fix t' j' assume t': "t' \<in> set ts2" and j': "j' \<in> set (positions pl t')"
    from ts t' have tt': "t \<le> t'" by simp
    from j' have j'pos: "j' < length pl" "pl ! j' = t'" by (simp_all add: positions_set)
    show "j0 \<le> j'"
    proof (rule ccontr)
      assume "\<not> j0 \<le> j'"
      then have lt: "j' < j0" by simp
      with j0pos have "pl ! j' \<le> pl ! j0"
        using sorted_nth_mono [OF pl, of j' j0] by simp
      with j0pos j'pos tt' have "pl ! j' = t" by simp
      with j'pos have "j' \<in> set (positions pl t)" by (simp add: positions_set)
      with first lt show False by auto
    qed
  qed
  have "foldl (val_step T n n_c i) v0 (positions pl t)
      = foldl (val_step T n n_c i) (val_step T n n_c i (foldl (val_step T n n_c i) v0 js1) j) js2"
    by (simp add: pos)
  also have "val_step T n n_c i (foldl (val_step T n n_c i) v0 js1) j = 0"
    using fails by (simp add: val_step_def)
  also have "foldl (val_step T n n_c i) 0 js2 = 0"
  proof (rule foldl_val_step_dead, rule ballI)
    fix j' assume "j' \<in> set js2"
    then have "j' \<in> set (positions pl t)" by (simp add: pos)
    with first have "j0 \<le> j'" by simp
    then have "overlap_bound n i n_c j' \<le> overlap_bound n i n_c j0"
      by (simp add: overlap_bound_mono)
    with b0 show "overlap_bound n i n_c j' < T" by simp
  qed
  finally have z: "foldl (val_step T n n_c i) v0 (positions pl t) = 0" .
  have "overlap_bound n (i + 1) n_c j0 \<le> overlap_bound n i n_c j0"
    by (simp add: overlap_bound_mono)
  with b0 have "overlap_bound n (i + 1) n_c j0 < T" by simp
  from cand_sweep_dead_tail [OF this later] show ?thesis by (simp add: z)
qed

section \<open>Rejection by the sweep is permanent\<close>

lemma sorted_py_slice_to: "sorted xs \<Longrightarrow> sorted (py_slice_to xs k)"
  by (simp add: py_slice_to_def)

text \<open>
  C3. The index is built over a left table with unique keys whose ordered token lists are
  ascending, and the probe is ascending. Let the sweep reach the posting \<open>(cand, j)\<close> of
  the prefix token \<open>t\<close> with the candidate map \<open>M\<close>, the candidate's size within the size
  bounds, and let the count of the candidate plus the overlap upper bound stay below the
  overlap threshold, so that the entry is set to 0. Then, whatever prefix tokens \<open>ts2\<close>
  follow, the sweep returns a candidate map in which the entry of the candidate is 0: no
  later posting raises it, and the candidate is not among those with a positive overlap.
  The code keeps no mark of the rejection; a later posting has a position at least as
  large on both sides, so its bound is too small for a count that restarts at 0.
\<close>

theorem sentinel_zero_permanent:
  fixes H :: helpers and self :: position_filter and r_num_tokens :: int
  defines "lb \<equiv> get_size_lower_bound H r_num_tokens (pf_sim_measure_type self) (pf_threshold self)"
      and "ub \<equiv> get_size_upper_bound H r_num_tokens (pf_sim_measure_type self) (pf_threshold self)"
  defines "cache \<equiv> overlap_threshold_cache H self r_num_tokens lb ub"
  assumes keys: "distinct (map row_key ltable)"
      and lsorted: "\<forall>r \<in> set ltable.
                      sorted (order_using_token_ordering H (tokenizer_tokenize tok (row_attr r)) tord)"
      and rsorted: "sorted r_ordered_tokens"
      and built: "position_index = build H (PositionIndex ltable tok m th tord)"
      and prefix: "py_slice_to r_ordered_tokens r_prefix_length = ts1 @ t # ts2"
      and postings: "probe position_index t = ps1 @ (cand, j) # ps2"
      and before_token: "probe_tokens position_index r_num_tokens lb ub cache 0 [] ts1 = Inr M0"
      and before_posting:
        "probe_postings position_index r_num_tokens lb ub cache (int (length ts1)) M0 ps1 = Inr M"
      and size: "get_size position_index cand = Some n_c"
      and in_bounds: "lb \<le> int n_c \<and> int n_c \<le> ub"
      and fails:
        "(case map_of M cand of None \<Rightarrow> 0 | Some v \<Rightarrow> v)
           + (1 + min (r_num_tokens - int (length ts1) - 1) (int n_c - int j - 1))
         < get_overlap_threshold H (int n_c) r_num_tokens (pf_sim_measure_type self)
             (pf_threshold self) (pf_tokenizer self)"
  shows "\<exists>candidate_overlap.
           find_candidates H self r_ordered_tokens r_num_tokens r_prefix_length position_index
             = Inr candidate_overlap
           \<and> map_of candidate_overlap cand = Some 0
           \<and> (\<forall>v. (cand, v) \<in> set candidate_overlap \<longrightarrow> v = 0)"
proof -
  let ?thr = "\<lambda>s. get_overlap_threshold H s r_num_tokens (pf_sim_measure_type self)
                      (pf_threshold self) (pf_tokenizer self)"
  let ?PI0 = "PositionIndex ltable tok m th tord"
  let ?T = "?thr (int n_c)"
  let ?i = "int (length ts1)"
  let ?step = "posting_step position_index ?thr r_num_tokens lb ub ?i"
  let ?co = "tokens_sweep position_index ?thr r_num_tokens lb ub 0 [] (ts1 @ t # ts2)"
  from postings have "(cand, j) \<in> set (probe position_index t)" by simp
  with built obtain lrow where lrow: "lrow \<in> set ltable" "row_key lrow = cand"
    using build_probe_row [of cand j H ltable tok m th tord t] by blast
  let ?pl = "prefix_tokens_of H ?PI0 lrow"
  have pl: "sorted ?pl"
    using lsorted lrow(1)
    by (simp add: prefix_tokens_of_def index_attr_tokens_of_def sorted_py_slice_to)
  have key: "\<And>t. map snd (filter (\<lambda>p. fst p = cand) (probe position_index t)) = positions ?pl t"
    using build_probe_key [OF keys lrow(1), of H tok m th tord] lrow(2) built by simp
  have lbub: "lb \<le> int n_c" "int n_c \<le> ub" using in_bounds by simp_all
  have fc: "find_candidates H self r_ordered_tokens r_num_tokens r_prefix_length position_index
      = Inr ?co"
    by (simp add: find_candidates_def Let_def lb_def [symmetric] ub_def [symmetric]
          cache_def [symmetric] prefix)
       (simp add: cache_def probe_tokens_pure)
  have M0: "M0 = tokens_sweep position_index ?thr r_num_tokens lb ub 0 [] ts1"
    using before_token by (simp add: cache_def probe_tokens_pure)
  have M: "M = foldl ?step M0 ps1"
    using before_posting by (simp add: cache_def probe_postings_pure)
  have co: "?co = tokens_sweep position_index ?thr r_num_tokens lb ub (?i + 1)
                    (foldl ?step (?step M (cand, j)) ps2) ts2"
    by (simp add: tokens_sweep_append M0 [symmetric] postings M)
  let ?v0 = "cand_sweep ?pl ?T r_num_tokens n_c 0 0 ts1"
  have v0: "cur_overlap M0 cand = ?v0"
    unfolding M0 using tokens_sweep_cur [OF size lbub key, of ?thr r_num_tokens 0 "[]" ts1]
    by (simp add: cur_overlap_def)
  have v0nn: "0 \<le> ?v0" by (simp add: cand_sweep_nonneg)
  let ?js1 = "map snd (filter (\<lambda>p. fst p = cand) ps1)"
  let ?js2 = "map snd (filter (\<lambda>p. fst p = cand) ps2)"
  have pos: "positions ?pl t = ?js1 @ j # ?js2"
    using key [of t] by (simp add: postings)
  have vM: "cur_overlap M cand = foldl (val_step ?T r_num_tokens n_c ?i) ?v0 ?js1"
    unfolding M using postings_sweep_cur [OF size lbub, of ?thr r_num_tokens ?i M0 ps1]
    by (simp add: v0)
  have f: "foldl (val_step ?T r_num_tokens n_c ?i) ?v0 ?js1 + overlap_bound r_num_tokens ?i n_c j < ?T"
    using fails by (simp add: vM [symmetric] cur_overlap_def overlap_bound_def)
  have srt: "sorted (t # ts2)"
  proof -
    have "sorted (ts1 @ t # ts2)"
      using sorted_py_slice_to [OF rsorted, of r_prefix_length] by (simp add: prefix)
    then show ?thesis by (simp add: sorted_append)
  qed
  have "cur_overlap ?co cand = cand_sweep ?pl ?T r_num_tokens n_c 0 0 (ts1 @ t # ts2)"
    using tokens_sweep_cur [OF size lbub key, of ?thr r_num_tokens 0 "[]" "ts1 @ t # ts2"]
    by (simp add: cur_overlap_def)
  also have "\<dots> = cand_sweep ?pl ?T r_num_tokens n_c (?i + 1)
                     (foldl (val_step ?T r_num_tokens n_c ?i) ?v0 (positions ?pl t)) ts2"
    by (simp add: cand_sweep_append)
  also have "\<dots> = 0"
    by (rule cand_sweep_dead [OF pl srt pos v0nn f])
  finally have zero: "cur_overlap ?co cand = 0" .
  have "cand \<in> fst ` set (?step M (cand, j))"
    using size lbub by (simp add: posting_step_def dom_update)
  then have "cand \<in> fst ` set (foldl ?step (?step M (cand, j)) ps2)"
    by (rule postings_sweep_dom)
  then have dom: "cand \<in> fst ` set ?co"
    unfolding co by (rule tokens_sweep_dom)
  have dist: "distinct (map fst ?co)"
    by (rule tokens_sweep_distinct) simp
  from dom have "map_of ?co cand \<noteq> None" by (simp add: map_of_eq_None_iff)
  with zero have some: "map_of ?co cand = Some 0" by (auto simp: cur_overlap_def)
  have "\<forall>v. (cand, v) \<in> set ?co \<longrightarrow> v = 0"
  proof (intro allI impI)
    fix v assume "(cand, v) \<in> set ?co"
    with dist have "map_of ?co cand = Some v" by (rule map_of_is_SomeI)
    with some show "v = 0" by simp
  qed
  with fc some show ?thesis by blast
qed

theorem sentinel_zero_permanent_witness:
  "distinct (map row_key L_prune)
   \<and> list_all (\<lambda>r. sorted (order_using_token_ordering spec_helpers
                             (tokenizer_tokenize (ws_tokenizer True) (row_attr r)) tord_prune))
        L_prune
   \<and> sorted [0, 1, 2, 3, 4 :: nat]
   \<and> py_slice_to [0, 1, 2, 3, 4 :: nat] 5 = [0] @ 1 # [2, 3, 4]
   \<and> probe PI_prune 1 = [] @ (1, 0) # []
   \<and> probe PI_prune 2 = [(1, 1)]
   \<and> get_size PI_prune 1 = Some 5
   \<and> (0 :: int) + (1 + min (5 - int (length [0 :: nat]) - 1) (int 5 - int 0 - 1))
       < get_overlap_threshold spec_helpers (int 5) 5 JACCARD (4/5) (ws_tokenizer True)
   \<and> (\<exists>candidate_overlap.
         find_candidates spec_helpers PF_prune [0, 1, 2, 3, 4] 5 5 PI_prune = Inr candidate_overlap
         \<and> map_of candidate_overlap 1 = Some 0)"
proof -
  have lb: "get_size_lower_bound spec_helpers 5 (pf_sim_measure_type PF_prune)
      (pf_threshold PF_prune) = 4"
    by code_simp
  have ub: "get_size_upper_bound spec_helpers 5 (pf_sim_measure_type PF_prune)
      (pf_threshold PF_prune) = 6"
    by code_simp
  have thr: "get_overlap_threshold spec_helpers (int 5) 5 (pf_sim_measure_type PF_prune)
      (pf_threshold PF_prune) (pf_tokenizer PF_prune) = 5"
    by code_simp
  have thr': "get_overlap_threshold spec_helpers (int 5) 5 JACCARD (4/5) (ws_tokenizer True) = 5"
    by code_simp
  have h1: "distinct (map row_key L_prune)" by code_simp
  have h2: "\<forall>r \<in> set L_prune. sorted (order_using_token_ordering spec_helpers
      (tokenizer_tokenize (ws_tokenizer True) (row_attr r)) tord_prune)"
    by (simp add: spec_helpers_def spec_order_using_def)
  have h3: "sorted [0, 1, 2, 3, 4 :: nat]" by simp
  have h4: "PI_prune = build spec_helpers
      (PositionIndex L_prune (ws_tokenizer True) JACCARD (4/5) tord_prune)"
    by (simp add: PI_prune_def)
  have h5: "py_slice_to [0, 1, 2, 3, 4 :: nat] 5 = [0] @ 1 # [2, 3, 4]" by code_simp
  have h6: "probe PI_prune 1 = [] @ (1, 0) # []" by code_simp
  have later: "probe PI_prune 2 = [(1, 1)]" by code_simp
  have p0: "probe PI_prune 0 = []" by code_simp
  have h7: "probe_tokens PI_prune 5 4 6 (overlap_threshold_cache spec_helpers PF_prune 5 4 6) 0 []
      [0] = Inr []"
    by (simp add: p0)
  have h8: "probe_postings PI_prune 5 4 6 (overlap_threshold_cache spec_helpers PF_prune 5 4 6)
      (int (length [0 :: nat])) [] [] = Inr []"
    by simp
  have h9: "get_size PI_prune 1 = Some 5" by code_simp
  have h10: "(4 :: int) \<le> int 5 \<and> int 5 \<le> 6" by simp
  have h11: "(case map_of ([] :: (key \<times> int) list) 1 of None \<Rightarrow> 0 | Some v \<Rightarrow> v)
           + (1 + min (5 - int (length [0 :: nat]) - 1) (int 5 - int 0 - 1))
         < get_overlap_threshold spec_helpers (int 5) 5 (pf_sim_measure_type PF_prune)
             (pf_threshold PF_prune) (pf_tokenizer PF_prune)"
    unfolding thr by simp
  have h11': "(0 :: int) + (1 + min (5 - int (length [0 :: nat]) - 1) (int 5 - int 0 - 1))
       < get_overlap_threshold spec_helpers (int 5) 5 JACCARD (4/5) (ws_tokenizer True)"
    unfolding thr' by simp
  note c = sentinel_zero_permanent [of L_prune spec_helpers "ws_tokenizer True" tord_prune
      "[0, 1, 2, 3, 4]" PI_prune JACCARD "4/5" 5 "[0]" 1 "[2, 3, 4]" "[]" 1 0 "[]" 5 PF_prune "[]"
      "[]" 5, unfolded lb ub, OF h1 h2 h3 h4 h5 h6 h7 h8 h9 h10 h11]
  have h2': "list_all (\<lambda>r. sorted (order_using_token_ordering spec_helpers
      (tokenizer_tokenize (ws_tokenizer True) (row_attr r)) tord_prune)) L_prune"
    using h2 by (simp add: list_all_iff)
  from h1 h2' h3 h5 h6 later h9 h11' c show ?thesis by blast
qed

section \<open>Completeness of the position filter\<close>

subsection \<open>Ascending lists without duplicates\<close>

lemma strict_nth_less:
  assumes "sorted xs" "distinct xs" "m < k" "k < length xs"
  shows "xs ! m < xs ! k"
proof -
  have "xs ! m \<le> xs ! k" using sorted_nth_mono [OF assms(1), of m k] assms(3,4) by simp
  moreover have "xs ! m \<noteq> xs ! k" using assms by (simp add: nth_eq_iff_index_eq)
  ultimately show ?thesis by simp
qed

lemma below_in_take:
  assumes "sorted xs" "k < length xs" "u \<in> set xs" "u < xs ! k"
  shows "u \<in> set (take k xs)"
proof -
  from assms(3) obtain m where m: "m < length xs" "xs ! m = u" by (auto simp: in_set_conv_nth)
  have "m < k"
  proof (rule ccontr)
    assume "\<not> m < k"
    then have "xs ! k \<le> xs ! m" using sorted_nth_mono [OF assms(1), of k m] m by simp
    with assms(4) m show False by simp
  qed
  then have "take k xs ! m = u" "m < length (take k xs)" using m assms(2) by simp_all
  then show ?thesis by (metis nth_mem)
qed

lemma above_in_drop:
  assumes "sorted xs" "distinct xs" "k < length xs" "u \<in> set xs" "xs ! k \<le> u"
  shows "u \<in> set (drop k xs)"
proof -
  from assms(4) obtain m where m: "m < length xs" "xs ! m = u" by (auto simp: in_set_conv_nth)
  have "k \<le> m"
  proof (rule ccontr)
    assume "\<not> k \<le> m"
    then have "xs ! m < xs ! k" using strict_nth_less [OF assms(1,2), of m k] assms(3) by simp
    with assms(5) m show False by simp
  qed
  then have "drop k xs ! (m - k) = u" "m - k < length (drop k xs)" using m by simp_all
  then show ?thesis by (metis nth_mem)
qed

lemma filter_enumerate_none:
  "t \<notin> set xs \<Longrightarrow> filter (\<lambda>p. snd p = t) (enumerate k xs) = []"
  by (auto simp: filter_empty_conv in_set_enumerate_eq)

lemma positions_none: "t \<notin> set pl \<Longrightarrow> positions pl t = []"
  by (simp add: positions_def filter_enumerate_none)

lemma filter_enumerate_distinct:
  "distinct xs \<Longrightarrow> j < length xs \<Longrightarrow>
     map fst (filter (\<lambda>p. snd p = xs ! j) (enumerate k xs)) = [k + j]"
proof (induction xs arbitrary: j k)
  case Nil
  then show ?case by simp
next
  case (Cons x xs)
  show ?case
  proof (cases j)
    case 0
    with Cons.prems show ?thesis by (simp add: filter_enumerate_none)
  next
    case (Suc j')
    with Cons.prems have "x \<noteq> xs ! j'" "j' < length xs" "distinct xs" by auto
    with Cons.IH [of j' "Suc k"] Suc show ?thesis by simp
  qed
qed

lemma positions_distinct: "distinct pl \<Longrightarrow> j < length pl \<Longrightarrow> positions pl (pl ! j) = [j]"
  using filter_enumerate_distinct [of pl j 0] by (simp add: positions_def)

lemma overlap_bound_min:
  "overlap_bound n r_pos n_c j = min (n - r_pos) (int n_c - int j)"
  by (simp add: overlap_bound_def min_def)

lemma common_bound:
  assumes l: "sorted l" "distinct l" and r: "sorted r" "distinct r"
      and i: "i < length r" and j: "j < length l" and eq: "l ! j = r ! i" and kl: "j < kl"
  shows "int (card (set l \<inter> set r))
     \<le> int (card (set (take i r) \<inter> set (take kl l)))
       + overlap_bound (int (length r)) (int i) (length l) j"
proof -
  let ?C = "set l \<inter> set r"
  let ?A = "{u \<in> ?C. u < r ! i}"
  let ?B = "{u \<in> ?C. r ! i \<le> u}"
  have C: "?C = ?A \<union> ?B" by auto
  have "card ?C = card ?A + card ?B"
    by (subst C, rule card_Un_disjoint) auto
  moreover have "card ?A \<le> card (set (take i r) \<inter> set (take kl l))"
  proof (rule card_mono)
    show "finite (set (take i r) \<inter> set (take kl l))" by simp
    show "?A \<subseteq> set (take i r) \<inter> set (take kl l)"
    proof
      fix u assume u: "u \<in> ?A"
      then have "u \<in> set (take i r)" using below_in_take [OF r(1) i, of u] by simp
      moreover have "u \<in> set (take j l)" using below_in_take [OF l(1) j, of u] u eq by simp
      then have "u \<in> set (take kl l)"
        using set_take_subset_set_take [of j kl l] kl by auto
      ultimately show "u \<in> set (take i r) \<inter> set (take kl l)" by simp
    qed
  qed
  moreover have "card ?B \<le> length r - i"
  proof -
    have "?B \<subseteq> set (drop i r)" using above_in_drop [OF r i] by auto
    then have "card ?B \<le> card (set (drop i r))" by (simp add: card_mono)
    also have "\<dots> \<le> length (drop i r)" by (rule card_length)
    finally show ?thesis by simp
  qed
  moreover have "card ?B \<le> length l - j"
  proof -
    have "?B \<subseteq> set (drop j l)" using above_in_drop [OF l j] eq by auto
    then have "card ?B \<le> card (set (drop j l))" by (simp add: card_mono)
    also have "\<dots> \<le> length (drop j l)" by (rule card_length)
    finally show ?thesis by simp
  qed
  ultimately show ?thesis using i j by (simp add: overlap_bound_min)
qed

lemma cand_sweep_count:
  assumes l: "sorted l" "distinct l" and r: "sorted r" "distinct r"
      and T: "T \<le> int (card (set l \<inter> set r))"
      and split: "take kr r = ds @ ts"
  shows "cand_sweep (take kl l) T (int (length r)) (length l) (int (length ds))
           (int (card (set ds \<inter> set (take kl l)))) ts
         = int (card (set (take kr r) \<inter> set (take kl l)))"
  using split
proof (induction ts arbitrary: ds)
  case Nil
  then show ?case by simp
next
  case (Cons t ts)
  let ?pl = "take kl l"
  let ?i = "length ds"
  let ?v = "int (card (set ds \<inter> set ?pl))"
  have split': "take kr r = (ds @ [t]) @ ts" using Cons.prems by simp
  have i: "?i < length r"
  proof -
    have "?i < length (take kr r)" unfolding Cons.prems by simp
    then show ?thesis by simp
  qed
  have ri: "r ! ?i = t"
  proof -
    have "?i < length (take kr r)" unfolding Cons.prems by simp
    then have "take kr r ! ?i = r ! ?i" by simp
    then show ?thesis unfolding Cons.prems by simp
  qed
  have ds: "ds = take ?i r"
  proof -
    have "take ?i (take kr r) = ds" unfolding Cons.prems by simp
    moreover have "?i \<le> kr"
    proof -
      have "?i < length (take kr r)" unfolding Cons.prems by simp
      then show ?thesis by simp
    qed
    ultimately show ?thesis by (simp add: min_def)
  qed
  have len: "int (length (ds @ [t])) = int ?i + 1" by simp
  note IH = Cons.IH [OF split', unfolded len]
  have tds: "t \<notin> set ds"
  proof -
    have "distinct (take kr r)" using r(2) by simp
    then show ?thesis unfolding Cons.prems by simp
  qed
  show ?case
  proof (cases "t \<in> set ?pl")
    case False
    then have "set (ds @ [t]) \<inter> set ?pl = set ds \<inter> set ?pl" by auto
    with IH False show ?thesis by (simp add: positions_none)
  next
    case True
    then obtain j where j: "j < length ?pl" "?pl ! j = t" by (auto simp: in_set_conv_nth)
    then have jl: "j < length l" "j < kl" "l ! j = r ! ?i" using ri by simp_all
    have pos: "positions ?pl t = [j]"
      using positions_distinct [of ?pl j] l(2) j by simp
    have "int (card (set l \<inter> set r))
        \<le> int (card (set (take ?i r) \<inter> set ?pl))
          + overlap_bound (int (length r)) (int ?i) (length l) j"
      by (rule common_bound [OF l r i jl(1) jl(3) jl(2)])
    with T ds have "T \<le> ?v + overlap_bound (int (length r)) (int ?i) (length l) j" by simp
    then have step: "val_step T (int (length r)) (length l) (int ?i) ?v j = ?v + 1"
      by (simp add: val_step_def)
    have "set (ds @ [t]) \<inter> set ?pl = insert t (set ds \<inter> set ?pl)" using True by auto
    then have "card (set (ds @ [t]) \<inter> set ?pl) = Suc (card (set ds \<inter> set ?pl))"
      using tds by simp
    with IH show ?thesis by (simp add: pos step add.commute)
  qed
qed

lemma first_common_position:
  assumes l: "sorted l" "distinct l" and C: "C \<subseteq> set l" "C \<noteq> {}"
      and k: "int (length l) - int (card C) < int k"
  shows "Min C \<in> set (take k l)"
proof -
  have fin: "finite C" using C(1) by (rule finite_subset) simp
  then have "Min C \<in> C" using C(2) by simp
  with C(1) have "Min C \<in> set l" by blast
  then obtain j0 where j0: "j0 < length l" "l ! j0 = Min C"
    by (auto simp: in_set_conv_nth)
  have "C \<subseteq> set (drop j0 l)"
  proof
    fix u assume u: "u \<in> C"
    then have "Min C \<le> u" using fin by simp
    with u C(1) show "u \<in> set (drop j0 l)" using above_in_drop [OF l j0(1), of u] j0(2) by auto
  qed
  then have "card C \<le> card (set (drop j0 l))" by (simp add: card_mono)
  also have "\<dots> \<le> length (drop j0 l)" by (rule card_length)
  finally have "card C \<le> length l - j0" by simp
  with k j0(1) have "j0 < k" by simp
  then have "take k l ! j0 = Min C" "j0 < length (take k l)" using j0 by simp_all
  then show ?thesis by (metis nth_mem)
qed

lemma cand_sweep_complete:
  assumes l: "sorted l" "distinct l" and r: "sorted r" "distinct r"
      and T1: "1 \<le> T" and T: "T \<le> int (card (set l \<inter> set r))"
      and kl: "int (length l) - T + 1 \<le> int kl" and kr: "int (length r) - T + 1 \<le> int kr"
  shows "1 \<le> cand_sweep (take kl l) T (int (length r)) (length l) 0 0 (take kr r)"
proof -
  let ?C = "set l \<inter> set r"
  have ne: "?C \<noteq> {}"
  proof
    assume "?C = {}"
    then have "card ?C = 0" by simp
    with T T1 show False by simp
  qed
  have "Min ?C \<in> set (take kl l)"
    by (rule first_common_position [OF l _ ne]) (use T kl in auto)
  moreover have "Min ?C \<in> set (take kr r)"
    by (rule first_common_position [OF r _ ne]) (use T kr in auto)
  ultimately have "set (take kr r) \<inter> set (take kl l) \<noteq> {}" by auto
  then have "0 < card (set (take kr r) \<inter> set (take kl l))" by (simp add: card_gt_0_iff)
  moreover have "cand_sweep (take kl l) T (int (length r)) (length l) 0 0 (take kr r)
      = int (card (set (take kr r) \<inter> set (take kl l)))"
    using cand_sweep_count [OF l r T, of kr "[]" "take kr r" kl] by simp
  ultimately show ?thesis by simp
qed

subsection \<open>The join never fails\<close>

lemma posting_step_keys:
  "fst ` set (posting_step PI thr n lb ub r_pos M p) \<subseteq> insert (fst p) (fst ` set M)"
  by (auto simp: posting_step_def dom_update split: option.splits if_splits)

lemma postings_sweep_keys:
  "fst ` set ps \<subseteq> K \<Longrightarrow> fst ` set M \<subseteq> K \<Longrightarrow>
     fst ` set (foldl (posting_step PI thr n lb ub r_pos) M ps) \<subseteq> K"
proof (induction ps arbitrary: M)
  case Nil
  then show ?case by simp
next
  case (Cons p ps)
  have "fst ` set (posting_step PI thr n lb ub r_pos M p) \<subseteq> K"
    by (rule subset_trans [OF posting_step_keys]) (use Cons.prems in auto)
  with Cons.IH [of "posting_step PI thr n lb ub r_pos M p"] Cons.prems show ?case by simp
qed

lemma tokens_sweep_keys:
  "(\<And>t. fst ` set (probe PI t) \<subseteq> K) \<Longrightarrow> fst ` set M \<subseteq> K \<Longrightarrow>
     fst ` set (tokens_sweep PI thr n lb ub r_pos M ts) \<subseteq> K"
proof (induction ts arbitrary: M r_pos)
  case Nil
  then show ?case by simp
next
  case (Cons t ts)
  have "fst ` set (foldl (posting_step PI thr n lb ub r_pos) M (probe PI t)) \<subseteq> K"
    by (rule postings_sweep_keys) (use Cons.prems in auto)
  with Cons.IH [OF Cons.prems(1)] show ?case by simp
qed

lemma build_probe_keys:
  "fst ` set (probe (build H (PositionIndex tbl tok m th tord)) t) \<subseteq> row_key ` set tbl"
  using build_probe_row [of _ _ H tbl tok m th tord t] by force

lemma cache_l_join_attr_other:
  "k \<notin> row_key ` set rows \<Longrightarrow> cache_l_join_attr H tok m tord d rows k = d k"
  by (induction rows arbitrary: d) simp_all

lemma cache_l_join_attr_dom:
  "k \<in> row_key ` set rows \<union> dom d \<Longrightarrow> k \<in> dom (cache_l_join_attr H tok m tord d rows)"
proof (induction rows arbitrary: d)
  case Nil
  then show ?case by simp
next
  case (Cons a rows)
  let ?d = "d(row_key a \<mapsto> order_using_token_ordering H (tokenize H (row_attr a) tok m) tord)"
  have "k \<in> row_key ` set rows \<union> dom ?d" using Cons.prems by auto
  from Cons.IH [OF this] show ?case unfolding cache_l_join_attr.simps .
qed

lemma cache_l_join_attr_row:
  "distinct (map row_key rows) \<Longrightarrow> r \<in> set rows \<Longrightarrow>
     cache_l_join_attr H tok m tord d rows (row_key r)
       = Some (order_using_token_ordering H (tokenize H (row_attr r) tok m) tord)"
proof (induction rows arbitrary: d)
  case Nil
  then show ?case by simp
next
  case (Cons a rows)
  show ?case
  proof (cases "r = a")
    case True
    with Cons.prems have "row_key r \<notin> row_key ` set rows" by auto
    then show ?thesis using True by (simp add: cache_l_join_attr_other)
  next
    case False
    with Cons.prems have "r \<in> set rows" "distinct (map row_key rows)" by auto
    then show ?thesis using Cons.IH by simp
  qed
qed

lemma verify_candidates_rows:
  "fst ` set co \<subseteq> dom d \<Longrightarrow>
     verify_candidates sim_fn threshold out_sim_score d r_id rtoks co
       = Inr (verified_rows sim_fn threshold out_sim_score d r_id rtoks co)"
proof (induction co)
  case Nil
  show ?case by (simp add: verified_rows_def)
next
  case (Cons p co)
  obtain c v where p: "p = (c, v)" by (cases p)
  from Cons.prems p obtain ts where ts: "d c = Some ts" by auto
  from Cons.prems have "fst ` set co \<subseteq> dom d" by simp
  from Cons.IH [OF this] show ?case
    by (simp add: p ts verified_rows_def dict_tokens_def Let_def)
qed

lemma find_candidates_sweep:
  "find_candidates H self rtoks n p PI
     = Inr (tokens_sweep PI
              (\<lambda>s. get_overlap_threshold H s n (pf_sim_measure_type self) (pf_threshold self)
                      (pf_tokenizer self))
              n
              (get_size_lower_bound H n (pf_sim_measure_type self) (pf_threshold self))
              (get_size_upper_bound H n (pf_sim_measure_type self) (pf_threshold self))
              0 [] (py_slice_to rtoks p))"
  by (simp add: find_candidates_def Let_def probe_tokens_pure)

lemma PositionFilter_fields [simp]:
  "pf_tokenizer (PositionFilter tok m th) = tok"
  "pf_sim_measure_type (PositionFilter tok m th) = m"
  "pf_threshold (PositionFilter tok m th) = th"
  by (simp_all add: PositionFilter_def)

lemma candidates_of_keys:
  "fst ` set (candidates_of H ltable tok m th tord r_row) \<subseteq> row_key ` set ltable"
  unfolding candidates_of_def
  by (rule tokens_sweep_keys) (simp_all add: build_probe_keys)

lemma join_r_row_rows:
  "join_r_row H tok m th oss tord (cache_l_join_attr H tok m tord Map.empty ltable)
       (build H (PositionIndex ltable tok m th tord)) r_row
     = Inr (verified_rows (get_sim_function H m) th oss
              (cache_l_join_attr H tok m tord Map.empty ltable) (row_key r_row)
              (r_ordered_tokens_of H tok m tord r_row)
              (candidates_of H ltable tok m th tord r_row))"
proof -
  have "fst ` set (candidates_of H ltable tok m th tord r_row)
      \<subseteq> dom (cache_l_join_attr H tok m tord Map.empty ltable)"
    using candidates_of_keys [of H ltable tok m th tord r_row]
      cache_l_join_attr_dom [of _ ltable Map.empty H tok m tord]
    by blast
  from verify_candidates_rows [OF this] show ?thesis
    by (simp add: join_r_row_def Let_def find_candidates_sweep candidates_of_def)
qed

lemma join_r_rows_rows:
  "join_r_rows H tok m th oss tord (cache_l_join_attr H tok m tord Map.empty ltable)
       (build H (PositionIndex ltable tok m th tord)) rows
     = Inr (concat (map (\<lambda>r_row.
              verified_rows (get_sim_function H m) th oss
                (cache_l_join_attr H tok m tord Map.empty ltable) (row_key r_row)
                (r_ordered_tokens_of H tok m tord r_row)
                (candidates_of H ltable tok m th tord r_row)) rows))"
  by (induction rows) (simp_all add: join_r_row_rows)

lemma set_sim_join_rows:
  "set_sim_join H ltable rtable tok m th oss
     = Inr (concat (map (\<lambda>r_row.
              verified_rows (get_sim_function H m) th oss
                (cache_l_join_attr H tok m (gen_token_ordering_for_tables H [ltable, rtable] tok m)
                   Map.empty ltable)
                (row_key r_row)
                (r_ordered_tokens_of H tok m (gen_token_ordering_for_tables H [ltable, rtable] tok m)
                   r_row)
                (candidates_of H ltable tok m th
                   (gen_token_ordering_for_tables H [ltable, rtable] tok m) r_row)) rtable))"
  by (simp add: set_sim_join_def Let_def join_r_rows_rows)

subsection \<open>Counting the rows of a pair\<close>

lemma distinct_key_filter:
  "distinct (map fst xs) \<Longrightarrow> (k, v) \<in> set xs \<Longrightarrow> filter (\<lambda>p. fst p = k) xs = [(k, v)]"
proof (induction xs)
  case Nil
  then show ?case by simp
next
  case (Cons a xs)
  show ?case
  proof (cases "a = (k, v)")
    case True
    with Cons.prems have "k \<notin> fst ` set xs" by auto
    then have "filter (\<lambda>p. fst p = k) xs = []" by (auto simp: filter_empty_conv)
    with True show ?thesis by simp
  next
    case False
    with Cons.prems have in_xs: "(k, v) \<in> set xs" and d: "distinct (map fst xs)" by auto
    from in_xs have "k \<in> fst ` set xs" by force
    with Cons.prems have "fst a \<noteq> k" by auto
    with Cons.IH [OF d in_xs] show ?thesis by simp
  qed
qed

lemma verified_rows_other:
  "b \<noteq> r_id \<Longrightarrow>
     filter (\<lambda>row. fst row = a \<and> fst (snd row) = b)
       (verified_rows sim_fn th oss d r_id rtoks co) = []"
  by (auto simp: verified_rows_def filter_empty_conv)

lemma verified_rows_pair:
  "filter (\<lambda>row. fst row = a \<and> fst (snd row) = r_id)
       (verified_rows sim_fn th oss d r_id rtoks co)
     = verified_rows sim_fn th oss d r_id rtoks (filter (\<lambda>p. fst p = a) co)"
  by (simp add: verified_rows_def filter_map comp_def conj_commute)

lemma concat_rows_pair:
  "distinct (map row_key rtable) \<Longrightarrow> r \<in> set rtable \<Longrightarrow>
     filter (\<lambda>row. fst row = a \<and> fst (snd row) = row_key r)
       (concat (map (\<lambda>r'. verified_rows sim_fn th oss d (row_key r') (g r') (h r')) rtable))
     = verified_rows sim_fn th oss d (row_key r) (g r) (filter (\<lambda>p. fst p = a) (h r))"
proof (induction rtable)
  case Nil
  then show ?case by simp
next
  case (Cons x rtable)
  show ?case
  proof (cases "r = x")
    case True
    with Cons.prems have "\<forall>r' \<in> set rtable. row_key r \<noteq> row_key r'" by auto
    then have "filter (\<lambda>row. fst row = a \<and> fst (snd row) = row_key r)
        (concat (map (\<lambda>r'. verified_rows sim_fn th oss d (row_key r') (g r') (h r')) rtable)) = []"
      by (induction rtable) (simp_all add: verified_rows_other)
    with True show ?thesis by (simp add: verified_rows_pair)
  next
    case False
    with Cons.prems have r: "r \<in> set rtable" and d: "distinct (map row_key rtable)"
      and x: "row_key x \<notin> row_key ` set rtable" by auto
    from r have "row_key r \<in> row_key ` set rtable" by (rule imageI)
    with x have "row_key r \<noteq> row_key x" by metis
    with Cons.IH [OF d r] show ?thesis by (simp add: verified_rows_other)
  qed
qed

lemma overlap_count_card: "distinct x \<Longrightarrow> overlap_count x y = card (set x \<inter> set y)"
proof -
  assume d: "distinct x"
  have "{t. t \<in> set y} \<inter> set x = set x \<inter> set y" by auto
  with d show ?thesis by (simp add: overlap_count_def distinct_length_filter)
qed

lemma py_slice_to_take: "0 \<le> k \<Longrightarrow> py_slice_to xs k = take (nat k) xs"
  by (simp add: py_slice_to_def)

text \<open>
  Completeness for the pairs the sweep can see. Both tables have unique keys; \<open>l\<close> and \<open>r\<close> are rows
  of the left and the right table with ascending ordered token lists without duplicates;
  the tokens cached for \<open>l\<close> are those the index is built on. The filter utilities are
  sound at the pair: the size of \<open>l\<close> lies within the size bounds of \<open>r\<close>, the overlap
  threshold \<open>T\<close> of the two sizes is at least 1 and at most the number of common tokens,
  and each prefix length is at least the size minus \<open>T\<close> plus 1. If the similarity of the
  pair reaches the threshold (as it does when it satisfies \<^verbatim>\<open>>=\<close>, \<^verbatim>\<open>>\<close> or \<^verbatim>\<open>=\<close>), then
  \<^verbatim>\<open>set_sim_join\<close> returns normally and its output has the row of the pair exactly once:
  the position filter followed by the verification loses no such pair.
\<close>

lemma position_filter_join_complete:
  fixes H :: helpers and l r :: row and ltable rtable :: "row list" and tok :: tokenizer
    and m :: sim_measure and threshold :: rat
  defines "tord \<equiv> gen_token_ordering_for_tables H [ltable, rtable] tok m"
  defines "ltoks \<equiv> order_using_token_ordering H (tokenizer_tokenize tok (row_attr l)) tord"
      and "rtoks \<equiv> order_using_token_ordering H (tokenize H (row_attr r) tok m) tord"
  defines "T \<equiv> get_overlap_threshold H (int (length ltoks)) (int (length rtoks)) m threshold tok"
  assumes keys_l: "distinct (map row_key ltable)" and keys_r: "distinct (map row_key rtable)"
      and l_in: "l \<in> set ltable" and r_in: "r \<in> set rtable"
      and agree: "order_using_token_ordering H (tokenize H (row_attr l) tok m) tord = ltoks"
      and l_asc: "sorted ltoks \<and> distinct ltoks" and r_asc: "sorted rtoks \<and> distinct rtoks"
      and size_lower: "get_size_lower_bound H (int (length rtoks)) m threshold \<le> int (length ltoks)"
      and size_upper: "int (length ltoks) \<le> get_size_upper_bound H (int (length rtoks)) m threshold"
      and T_pos: "1 \<le> T" and T_overlap: "T \<le> int (overlap_count ltoks rtoks)"
      and l_prefix: "int (length ltoks) - T + 1
                       \<le> get_prefix_length H (int (length ltoks)) m threshold tok"
      and r_prefix: "int (length rtoks) - T + 1
                       \<le> get_prefix_length H (int (length rtoks)) m threshold tok"
      and similar: "threshold \<le> get_sim_function H m ltoks rtoks"
  shows "\<exists>rows. set_sim_join H ltable rtable tok m threshold out_sim_score = Inr rows
           \<and> (row_key l, row_key r,
                if out_sim_score then Some (get_sim_function H m ltoks rtoks) else None)
               \<in> set rows
           \<and> length (filter (\<lambda>row. fst row = row_key l \<and> fst (snd row) = row_key r) rows) = 1"
proof -
  let ?Pinit = "PositionIndex ltable tok m threshold tord"
  let ?PI = "build H ?Pinit"
  let ?d = "cache_l_join_attr H tok m tord Map.empty ltable"
  let ?n = "int (length rtoks)"
  let ?thr = "\<lambda>s. get_overlap_threshold H s ?n m threshold tok"
  let ?lb = "get_size_lower_bound H ?n m threshold"
  let ?ub = "get_size_upper_bound H ?n m threshold"
  let ?pl = "prefix_tokens_of H ?Pinit l"
  let ?kl = "get_prefix_length H (int (length ltoks)) m threshold tok"
  let ?kr = "get_prefix_length H ?n m threshold tok"
  let ?co = "candidates_of H ltable tok m threshold tord r"
  let ?f = "\<lambda>r_row. verified_rows (get_sim_function H m) threshold out_sim_score ?d
              (row_key r_row) (r_ordered_tokens_of H tok m tord r_row)
              (candidates_of H ltable tok m threshold tord r_row)"
  let ?row = "(row_key l, row_key r,
                if out_sim_score then Some (get_sim_function H m ltoks rtoks) else None)"
  have rt: "r_ordered_tokens_of H tok m tord r = rtoks"
    by (simp add: r_ordered_tokens_of_def rtoks_def)
  have lt: "index_attr_tokens_of H ?Pinit l = ltoks"
    by (simp add: index_attr_tokens_of_def ltoks_def)
  have card: "overlap_count ltoks rtoks = card (set ltoks \<inter> set rtoks)"
    using l_asc by (simp add: overlap_count_card)
  have "card (set ltoks \<inter> set rtoks) \<le> card (set ltoks)" by (simp add: card_mono)
  also have "\<dots> \<le> length ltoks" by (rule card_length)
  finally have Tl: "T \<le> int (length ltoks)" using T_overlap card by simp
  have "card (set ltoks \<inter> set rtoks) \<le> card (set rtoks)" by (simp add: card_mono)
  also have "\<dots> \<le> length rtoks" by (rule card_length)
  finally have Tr: "T \<le> int (length rtoks)" using T_overlap card by simp
  have kl0: "0 \<le> ?kl" using l_prefix Tl by simp
  have kr0: "0 \<le> ?kr" using r_prefix Tr by simp
  have pl: "?pl = take (nat ?kl) ltoks"
    by (simp add: prefix_tokens_of_def lt py_slice_to_take [OF kl0])
  have size: "get_size ?PI (row_key l) = Some (length ltoks)"
    using build_rows_size [OF keys_l l_in, of H ?Pinit] by (simp add: get_size_def build_def lt)
  have key: "\<And>t. map snd (filter (\<lambda>p. fst p = row_key l) (probe ?PI t)) = positions ?pl t"
    by (rule build_probe_key [OF keys_l l_in])
  have "cur_overlap ?co (row_key l)
      = cand_sweep ?pl (?thr (int (length ltoks))) ?n (length ltoks) 0 0
          (py_slice_to rtoks ?kr)"
    using tokens_sweep_cur [OF size size_lower size_upper key, of ?thr ?n 0 "[]"
        "py_slice_to rtoks ?kr"]
    by (simp add: candidates_of_def rt cur_overlap_def)
  also have "\<dots> = cand_sweep (take (nat ?kl) ltoks) T ?n (length ltoks) 0 0 (take (nat ?kr) rtoks)"
    by (simp add: pl py_slice_to_take [OF kr0] T_def)
  finally have cur: "cur_overlap ?co (row_key l)
      = cand_sweep (take (nat ?kl) ltoks) T ?n (length ltoks) 0 0 (take (nat ?kr) rtoks)" .
  have "1 \<le> cand_sweep (take (nat ?kl) ltoks) T ?n (length ltoks) 0 0 (take (nat ?kr) rtoks)"
  proof (rule cand_sweep_complete)
    show "sorted ltoks" "distinct ltoks" "sorted rtoks" "distinct rtoks"
      using l_asc r_asc by simp_all
    show "1 \<le> T" by (rule T_pos)
    show "T \<le> int (card (set ltoks \<inter> set rtoks))" using T_overlap card by simp
    show "int (length ltoks) - T + 1 \<le> int (nat ?kl)" using l_prefix kl0 by simp
    show "int (length rtoks) - T + 1 \<le> int (nat ?kr)" using r_prefix kr0 by simp
  qed
  with cur have pos: "1 \<le> cur_overlap ?co (row_key l)" by simp
  then obtain v where v: "map_of ?co (row_key l) = Some v" "1 \<le> v"
    by (auto simp: cur_overlap_def split: option.splits)
  then have in_co: "(row_key l, v) \<in> set ?co" by (simp add: map_of_SomeD)
  have dist: "distinct (map fst ?co)"
    unfolding candidates_of_def by (rule tokens_sweep_distinct) simp
  have dl: "dict_tokens ?d (row_key l) = ltoks"
    using cache_l_join_attr_row [OF keys_l l_in, of H tok m tord Map.empty] agree
    by (simp add: dict_tokens_def)
  have one: "filter (\<lambda>p. fst p = row_key l) ?co = [(row_key l, v)]"
    by (rule distinct_key_filter [OF dist in_co])
  have pair: "filter (\<lambda>row. fst row = row_key l \<and> fst (snd row) = row_key r)
      (concat (map ?f rtable)) = [?row]"
    using concat_rows_pair [OF keys_r r_in, of "row_key l" "get_sim_function H m" threshold
        out_sim_score ?d "r_ordered_tokens_of H tok m tord"
        "candidates_of H ltable tok m threshold tord"]
      v(2) similar
    by (simp add: one rt verified_rows_def dl)
  have join: "set_sim_join H ltable rtable tok m threshold out_sim_score
      = Inr (concat (map ?f rtable))"
    by (simp add: set_sim_join_rows tord_def)
  have "?row \<in> set (filter (\<lambda>row. fst row = row_key l \<and> fst (snd row) = row_key r)
      (concat (map ?f rtable)))"
    unfolding pair by simp
  then have mem: "?row \<in> set (concat (map ?f rtable))" by simp
  have len: "length (filter (\<lambda>row. fst row = row_key l \<and> fst (snd row) = row_key r)
      (concat (map ?f rtable))) = 1"
    unfolding pair by simp
  from join mem len show ?thesis by blast
qed

lemma position_filter_join_complete_dice:
  "distinct (map row_key L_dice) \<and> distinct (map row_key R_dice)
   \<and> hd L_dice \<in> set L_dice \<and> hd R_dice \<in> set R_dice
   \<and> order_using_token_ordering spec_helpers
         (tokenizer_tokenize (ws_tokenizer True) (row_attr (hd L_dice))) tord_dice = [0, 1, 4, 5]
   \<and> order_using_token_ordering spec_helpers
         (tokenize spec_helpers (row_attr (hd L_dice)) (ws_tokenizer True) DICE) tord_dice
       = [0, 1, 4, 5]
   \<and> order_using_token_ordering spec_helpers
         (tokenize spec_helpers (row_attr (hd R_dice)) (ws_tokenizer True) DICE) tord_dice
       = [2, 3, 4, 5]
   \<and> get_size_lower_bound spec_helpers 4 DICE (1/2) = 2
   \<and> get_size_upper_bound spec_helpers 4 DICE (1/2) = 12
   \<and> get_overlap_threshold spec_helpers 4 4 DICE (1/2) (ws_tokenizer True) = 2
   \<and> overlap_count [0, 1, 4, 5] [2, 3, 4, 5] = 2
   \<and> get_prefix_length spec_helpers 4 DICE (1/2) (ws_tokenizer True) = 3
   \<and> get_sim_function spec_helpers DICE [0, 1, 4, 5] [2, 3, 4, 5] = 1/2
   \<and> (\<exists>rows. set_sim_join spec_helpers L_dice R_dice (ws_tokenizer True) DICE (1/2) True = Inr rows
          \<and> (1, 1, Some (1/2)) \<in> set rows
          \<and> length (filter (\<lambda>row. fst row = 1 \<and> fst (snd row) = 1) rows) = 1)"
proof -
  let ?l = "hd L_dice" and ?r = "hd R_dice"
  have tord: "gen_token_ordering_for_tables spec_helpers [L_dice, R_dice] (ws_tokenizer True) DICE
      = tord_dice"
    by (simp add: tord_dice_def)
  have k: "row_key ?l = 1" "row_key ?r = 1" by (simp_all add: L_dice_def R_dice_def)
  have h1: "distinct (map row_key L_dice)" by (simp add: L_dice_def)
  have h2: "distinct (map row_key R_dice)" by (simp add: R_dice_def)
  have h3: "?l \<in> set L_dice" by (simp add: L_dice_def)
  have h4: "?r \<in> set R_dice" by (simp add: R_dice_def)
  have lt: "order_using_token_ordering spec_helpers
      (tokenizer_tokenize (ws_tokenizer True) (row_attr ?l)) tord_dice = [0, 1, 4, 5]"
    by code_simp
  have lt': "order_using_token_ordering spec_helpers
      (tokenize spec_helpers (row_attr ?l) (ws_tokenizer True) DICE) tord_dice = [0, 1, 4, 5]"
    by code_simp
  have rt: "order_using_token_ordering spec_helpers
      (tokenize spec_helpers (row_attr ?r) (ws_tokenizer True) DICE) tord_dice = [2, 3, 4, 5]"
    by code_simp
  have lb: "get_size_lower_bound spec_helpers 4 DICE (1/2) = 2" by code_simp
  have ub: "get_size_upper_bound spec_helpers 4 DICE (1/2) = 12" by code_simp
  have thr: "get_overlap_threshold spec_helpers 4 4 DICE (1/2) (ws_tokenizer True) = 2"
    by code_simp
  have oc: "overlap_count [0, 1, 4, 5] [2, 3, 4, 5] = 2" by code_simp
  have pl: "get_prefix_length spec_helpers 4 DICE (1/2) (ws_tokenizer True) = 3" by code_simp
  have sim: "get_sim_function spec_helpers DICE [0, 1, 4, 5] [2, 3, 4, 5] = 1/2" by code_simp
  have g2: "sorted [0, 1, 4, 5 :: nat] \<and> distinct [0, 1, 4, 5 :: nat]" by simp
  have g3: "sorted [2, 3, 4, 5 :: nat] \<and> distinct [2, 3, 4, 5 :: nat]" by simp
  have g4: "get_size_lower_bound spec_helpers (int (length [2, 3, 4, 5 :: nat])) DICE (1/2)
      \<le> int (length [0, 1, 4, 5 :: nat])"
    using lb by simp
  have g5: "int (length [0, 1, 4, 5 :: nat])
      \<le> get_size_upper_bound spec_helpers (int (length [2, 3, 4, 5 :: nat])) DICE (1/2)"
    using ub by simp
  have T: "get_overlap_threshold spec_helpers (int (length [0, 1, 4, 5 :: nat]))
      (int (length [2, 3, 4, 5 :: nat])) DICE (1/2) (ws_tokenizer True) = 2"
    using thr by simp
  have g6: "1 \<le> get_overlap_threshold spec_helpers (int (length [0, 1, 4, 5 :: nat]))
      (int (length [2, 3, 4, 5 :: nat])) DICE (1/2) (ws_tokenizer True)"
    unfolding T by simp
  have g7: "get_overlap_threshold spec_helpers (int (length [0, 1, 4, 5 :: nat]))
      (int (length [2, 3, 4, 5 :: nat])) DICE (1/2) (ws_tokenizer True)
      \<le> int (overlap_count [0, 1, 4, 5] [2, 3, 4, 5])"
    unfolding T oc by simp
  have g8: "int (length [0, 1, 4, 5 :: nat])
      - get_overlap_threshold spec_helpers (int (length [0, 1, 4, 5 :: nat]))
          (int (length [2, 3, 4, 5 :: nat])) DICE (1/2) (ws_tokenizer True) + 1
      \<le> get_prefix_length spec_helpers (int (length [0, 1, 4, 5 :: nat])) DICE (1/2)
          (ws_tokenizer True)"
    unfolding T using pl by simp
  have g9: "int (length [2, 3, 4, 5 :: nat])
      - get_overlap_threshold spec_helpers (int (length [0, 1, 4, 5 :: nat]))
          (int (length [2, 3, 4, 5 :: nat])) DICE (1/2) (ws_tokenizer True) + 1
      \<le> get_prefix_length spec_helpers (int (length [2, 3, 4, 5 :: nat])) DICE (1/2)
          (ws_tokenizer True)"
    unfolding T using pl by simp
  have g10: "(1/2 :: rat) \<le> get_sim_function spec_helpers DICE [0, 1, 4, 5] [2, 3, 4, 5]"
    unfolding sim by simp
  note c = position_filter_join_complete [of L_dice R_dice ?l ?r spec_helpers "ws_tokenizer True"
      DICE "1/2" True, unfolded tord lt lt' rt k, OF h1 h2 h3 h4 refl g2 g3 g4 g5 g6 g7 g8 g9 g10,
      unfolded if_True sim]
  from c h1 h2 h3 h4 lt lt' rt lb ub thr oc pl sim show ?thesis by blast
qed

text \<open>
  C2 at two records without tokens: their similarity is 1, which reaches the threshold
  1/2, and the pair is in no output. \<^verbatim>\<open>set_sim_join\<close> returns an empty table, and
  \<^verbatim>\<open>dice_join\<close> raises \<^verbatim>\<open>TypeError\<close> at its call of \<^verbatim>\<open>set_sim_join\<close>, as it does on the
  tables of the Dice scenario, whose pair has the similarity 1/2.
\<close>

theorem token_less_pair_not_emitted:
  "order_using_token_ordering spec_helpers
       (tokenize spec_helpers (row_attr (hd L_empty)) (ws_tokenizer True) DICE)
       (gen_token_ordering_for_tables spec_helpers [L_empty, R_empty] (ws_tokenizer True) DICE) = []
   \<and> order_using_token_ordering spec_helpers
       (tokenize spec_helpers (row_attr (hd R_empty)) (ws_tokenizer True) DICE)
       (gen_token_ordering_for_tables spec_helpers [L_empty, R_empty] (ws_tokenizer True) DICE) = []
   \<and> (1/2 :: rat) \<le> get_sim_function spec_helpers DICE [] []
   \<and> set_sim_join spec_helpers L_empty R_empty (ws_tokenizer True) DICE (1/2) True = Inr []
   \<and> fst (dice_join spec_helpers L_empty R_empty (ws_tokenizer True) (1/2) GE True True)
       = Inl TypeError
   \<and> (1/2 :: rat) \<le> get_sim_function spec_helpers DICE [0, 1, 4, 5] [2, 3, 4, 5]
   \<and> fst (dice_join spec_helpers L_dice R_dice (ws_tokenizer True) (1/2) GE True True)
       = Inl TypeError"
  by code_simp

section \<open>What the join emits\<close>

text \<open>
  The first loop of \<^verbatim>\<open>filter_pair\<close> stores the same position for every token it visits.
\<close>

lemma fill_l_prefix_dict_other:
  "t \<notin> set ts \<Longrightarrow> fill_l_prefix_dict d l_pos ts t = d t"
  by (induction ts arbitrary: d) simp_all

lemma fill_l_prefix_dict_const:
  "t \<in> set ts \<Longrightarrow> fill_l_prefix_dict d l_pos ts t = Some l_pos"
proof (induction ts arbitrary: d)
  case Nil
  then show ?case by simp
next
  case (Cons a ts)
  show ?case
  proof (cases "t \<in> set ts")
    case True
    then show ?thesis using Cons.IH by simp
  next
    case False
    with Cons.prems have "t = a" by simp
    with False show ?thesis by (simp add: fill_l_prefix_dict_other)
  qed
qed

text \<open>
  What \<^verbatim>\<open>set_sim_join\<close> emits: every output row belongs to a left and a right row whose
  similarity reaches the threshold, the score is that similarity, and both rows have
  tokens. The comparison is \<^verbatim>\<open>>=\<close> for every operator the drivers accept, and a record
  without tokens is in no output row.
\<close>

lemma py_slice_to_Nil [simp]: "py_slice_to [] k = []"
  by (simp add: py_slice_to_def)





section \<open>The Dice formulas are sound\<close>

text \<open>
  The conditions on the filter utilities under which completeness is stated are met by
  the Dice formulas: for two token lists without duplicates, not both empty, whose Dice
  similarity reaches a threshold in \<open>(0, 1]\<close>, the size bounds, the overlap threshold
  and the prefix lengths are as completeness needs them.
\<close>

lemma overlap_count_le:
  assumes "distinct x" "distinct y"
  shows "overlap_count x y \<le> length x" "overlap_count x y \<le> length y"
proof -
  have "card (set x \<inter> set y) \<le> card (set x)" by (simp add: card_mono)
  also have "\<dots> \<le> length x" by (rule card_length)
  finally show "overlap_count x y \<le> length x" using assms by (simp add: overlap_count_card)
  have "card (set x \<inter> set y) \<le> card (set y)" by (simp add: card_mono)
  also have "\<dots> \<le> length y" by (rule card_length)
  finally show "overlap_count x y \<le> length y" using assms by (simp add: overlap_count_card)
qed

lemma clamp_prefix_ge: "k \<le> n \<Longrightarrow> k \<le> p \<Longrightarrow> k \<le> clamp_prefix n p"
  by (simp add: clamp_prefix_def)

lemma spec_dice_utilities_sound:
  fixes th :: rat
  assumes th: "0 < th" "th \<le> 1"
      and dx: "distinct x" and dy: "distinct y" and ne: "x \<noteq> [] \<or> y \<noteq> []"
      and sim: "th \<le> spec_sim_function DICE x y"
  shows "spec_size_lower_bound (int (length y)) DICE th \<le> int (length x)"
    and "int (length x) \<le> spec_size_upper_bound (int (length y)) DICE th"
    and "1 \<le> spec_overlap_threshold (int (length x)) (int (length y)) DICE th tok"
    and "spec_overlap_threshold (int (length x)) (int (length y)) DICE th tok
           \<le> int (overlap_count x y)"
    and "int (length x) - spec_overlap_threshold (int (length x)) (int (length y)) DICE th tok + 1
           \<le> spec_prefix_length (int (length x)) DICE th tok"
    and "int (length y) - spec_overlap_threshold (int (length x)) (int (length y)) DICE th tok + 1
           \<le> spec_prefix_length (int (length y)) DICE th tok"
proof -
  let ?nx = "of_nat (length x) :: rat" and ?ny = "of_nat (length y) :: rat"
  let ?O = "of_nat (overlap_count x y) :: rat"
  let ?T = "spec_overlap_threshold (int (length x)) (int (length y)) DICE th tok"
  have pos: "0 < ?nx + ?ny" using ne by (cases x; cases y) auto
  have A: "th * (?nx + ?ny) \<le> 2 * ?O"
  proof -
    from sim ne dx dy have "th \<le> 2 * ?O / (?nx + ?ny)"
      by (auto simp: distinct_remdups_id)
    with pos show ?thesis by (simp add: pos_le_divide_eq)
  qed
  have B: "?O \<le> ?nx" using overlap_count_le(1) [OF dx dy] by simp
  have C: "?O \<le> ?ny" using overlap_count_le(2) [OF dx dy] by simp
  have d: "0 < 2 - th" using th by simp
  have Tdef: "?T = \<lceil>th * (?nx + ?ny) / 2\<rceil>" by simp
  have lo: "th * ?ny / (2 - th) \<le> ?nx"
  proof -
    have "th * ?ny \<le> ?nx * (2 - th)" using A B by (simp add: algebra_simps)
    with d show ?thesis by (simp add: pos_divide_le_eq)
  qed
  then show "spec_size_lower_bound (int (length y)) DICE th \<le> int (length x)"
    by (simp add: ceiling_le_iff)
  have "?nx * th \<le> ?ny * (2 - th)" using A C by (simp add: algebra_simps)
  with th have "?nx \<le> ?ny * (2 - th) / th" by (simp add: pos_le_divide_eq)
  then show "int (length x) \<le> spec_size_upper_bound (int (length y)) DICE th"
    by (simp add: le_floor_iff)
  have "0 < th * (?nx + ?ny) / 2" using th pos by simp
  then show T1: "1 \<le> ?T" unfolding Tdef by linarith
  have "th * (?nx + ?ny) / 2 \<le> ?O" using A by simp
  then show "?T \<le> int (overlap_count x y)" unfolding Tdef by (simp add: ceiling_le_iff)
  have "th * ?nx / (2 - th) \<le> th * (?nx + ?ny) / 2"
  proof -
    have "2 * ?nx \<le> (2 - th) * (?nx + ?ny)" using A C by (simp add: algebra_simps)
    then have "?nx / (2 - th) \<le> (?nx + ?ny) / 2" using d by (simp add: field_simps)
    then have "th * (?nx / (2 - th)) \<le> th * ((?nx + ?ny) / 2)"
      by (rule mult_left_mono) (use th in simp)
    then show ?thesis by simp
  qed
  then have "\<lceil>th * ?nx / (2 - th)\<rceil> \<le> ?T" unfolding Tdef by (rule ceiling_mono)
  then have "int (length x) - ?T + 1 \<le> int (length x) - \<lceil>th * ?nx / (2 - th)\<rceil> + 1"
    by simp
  moreover have "int (length x) - ?T + 1 \<le> int (length x)" using T1 by simp
  ultimately show "int (length x) - ?T + 1 \<le> spec_prefix_length (int (length x)) DICE th tok"
    using clamp_prefix_ge by simp
  have "th * ?ny / (2 - th) \<le> th * (?nx + ?ny) / 2"
  proof -
    have "2 * ?ny \<le> (2 - th) * (?nx + ?ny)" using A B by (simp add: algebra_simps)
    then have "?ny / (2 - th) \<le> (?nx + ?ny) / 2" using d by (simp add: field_simps)
    then have "th * (?ny / (2 - th)) \<le> th * ((?nx + ?ny) / 2)"
      by (rule mult_left_mono) (use th in simp)
    then show ?thesis by simp
  qed
  then have "\<lceil>th * ?ny / (2 - th)\<rceil> \<le> ?T" unfolding Tdef by (rule ceiling_mono)
  then have "int (length y) - ?T + 1 \<le> int (length y) - \<lceil>th * ?ny / (2 - th)\<rceil> + 1"
    by simp
  moreover have "int (length y) - ?T + 1 \<le> int (length y)" using T1 by simp
  ultimately show "int (length y) - ?T + 1 \<le> spec_prefix_length (int (length y)) DICE th tok"
    using clamp_prefix_ge by simp
qed

section \<open>Soundness of the join output\<close>






end
